theory Spec2Isabelle
  imports Complex_Main "HOL-Library.AList" "HOL-Library.Multiset"
begin

section \<open>Common Python values\<close>

text \<open>
  Exceptions of the Python code are values: every function that can raise returns
  \<open>py_error + 'a\<close>, with \<open>Inl\<close> carrying the exception.
\<close>

datatype py_error =
    KeyError | IndexError | ValueError | TypeError | ZeroDivisionError | AttributeError
  | WebSocketDisconnect

text \<open>Python's \<open>int(x)\<close> on a float truncates towards zero.\<close>

definition py_int :: "real \<Rightarrow> int" where
  "py_int x = (if 0 \<le> x then \<lfloor>x\<rfloor> else \<lceil>x\<rceil>)"

section \<open>Replay streamer: \<open>app/api/websocket.py\<close>\<close>

text \<open>
  A naive \<open>datetime\<close> (what \<open>datetime(...)\<close>, \<open>utcnow()\<close> and a \<open>DateTime\<close> column give) is a
  count of microseconds, the resolution of Python's datetime; a \<open>timedelta\<close> is a
  difference of two such counts.
\<close>

type_synonym datetime = int

definition timedelta_seconds :: "int \<Rightarrow> int" where
  "timedelta_seconds s = s * 1000000"

definition timedelta_minutes :: "int \<Rightarrow> int" where
  "timedelta_minutes m = timedelta_seconds (60 * m)"

definition timedelta_hours :: "int \<Rightarrow> int" where
  "timedelta_hours h = timedelta_minutes (60 * h)"

text \<open>
  \<open>datetime.fromisoformat\<close> gives a naive datetime, or an aware one when the string
  carries a UTC offset. Adding a \<open>timedelta\<close> keeps the offset; an order comparison of
  a naive with an aware datetime raises \<open>TypeError\<close>, and two aware ones compare by
  their UTC instants.
\<close>

datatype pydatetime = Naive datetime | Aware datetime int

fun wall :: "pydatetime \<Rightarrow> datetime" where
  "wall (Naive t) = t"
| "wall (Aware t off) = t"

fun dt_add :: "pydatetime \<Rightarrow> int \<Rightarrow> pydatetime" where
  "dt_add (Naive t) d = Naive (t + d)"
| "dt_add (Aware t off) d = Aware (t + d) off"

fun dt_less :: "pydatetime \<Rightarrow> pydatetime \<Rightarrow> py_error + bool" where
  "dt_less (Naive a) (Naive b) = Inr (a < b)"
| "dt_less (Aware a oa) (Aware b ob) = Inr (a - oa < b - ob)"
| "dt_less (Naive a) (Aware b ob) = Inl TypeError"
| "dt_less (Aware a oa) (Naive b) = Inl TypeError"

text \<open>\<open>datetime(2026, 1, 15, 0, 0, 0)\<close>, counted from 1970-01-01T00:00:00.\<close>

definition default_start_time :: pydatetime where
  "default_start_time = Naive (timedelta_seconds 1768435200)"

datatype EventType =
    ET_ARRIVAL | ET_TRIAGE | ET_ADMISSION_REQUEST | ET_BED_ASSIGNMENT | ET_TRANSFER
  | ET_IMAGING_REQUEST | ET_IMAGING_START | ET_IMAGING_END
  | ET_CONSULT_REQUEST | ET_CONSULT_START | ET_CONSULT_END
  | ET_CLEANING_START | ET_CLEANING_END | ET_DISCHARGE | ET_ESCALATION
  | ET_NURSE_ASSIGNMENT | ET_TRANSPORT_REQUEST | ET_TRANSPORT_START | ET_TRANSPORT_END

fun EventType_value :: "EventType \<Rightarrow> string" where
  "EventType_value ET_ARRIVAL = ''arrival''"
| "EventType_value ET_TRIAGE = ''triage''"
| "EventType_value ET_ADMISSION_REQUEST = ''admission_request''"
| "EventType_value ET_BED_ASSIGNMENT = ''bed_assignment''"
| "EventType_value ET_TRANSFER = ''transfer''"
| "EventType_value ET_IMAGING_REQUEST = ''imaging_request''"
| "EventType_value ET_IMAGING_START = ''imaging_start''"
| "EventType_value ET_IMAGING_END = ''imaging_end''"
| "EventType_value ET_CONSULT_REQUEST = ''consult_request''"
| "EventType_value ET_CONSULT_START = ''consult_start''"
| "EventType_value ET_CONSULT_END = ''consult_end''"
| "EventType_value ET_CLEANING_START = ''cleaning_start''"
| "EventType_value ET_CLEANING_END = ''cleaning_end''"
| "EventType_value ET_DISCHARGE = ''discharge''"
| "EventType_value ET_ESCALATION = ''escalation''"
| "EventType_value ET_NURSE_ASSIGNMENT = ''nurse_assignment''"
| "EventType_value ET_TRANSPORT_REQUEST = ''transport_request''"
| "EventType_value ET_TRANSPORT_START = ''transport_start''"
| "EventType_value ET_TRANSPORT_END = ''transport_end''"

text \<open>
  The persisted rows the streamer reads (\<open>app/models/models.py\<close>). \<open>Event.event_type\<close>
  and \<open>Bed.status\<close> are \<open>String(50)\<close> columns: a loaded row carries a plain \<open>str\<close>.
  \<open>Event.timestamp\<close> is a \<open>DateTime\<close> column: a naive datetime.
\<close>

record Event =
  ev_id :: int
  ev_patient_id :: "int option"
  ev_event_type :: string
  ev_timestamp :: datetime
  ev_unit_id :: "int option"
  ev_bed_id :: "int option"
  ev_data :: string

record Bed =
  bed_row_id :: int
  bed_unit_id :: int
  bed_status :: string

record database =
  db_beds :: "Bed list"
  db_events :: "Event list"

record event_marker =
  em_id :: int
  em_type :: string
  em_timestamp :: datetime
  em_patient_id :: "int option"
  em_bed_id :: "int option"
  em_data :: string

record bed_change =
  bc_bed_id :: int
  bc_status :: string
  bc_patient_id :: "int option"

record replay_metrics =
  occupancy_percent :: real
  average_los_hours :: real
  average_time_to_bed_minutes :: real
  rm_sla_breaches :: int
  imaging_queue_length :: int
  ed_waiting_count :: int
  nurse_load_average :: real

record replay_delta =
  bed_changes :: "bed_change list"
  event_markers :: "event_marker list"
  delta_metrics :: replay_metrics

text \<open>
  Python's \<open>round(x, 1)\<close>: to one decimal, ties to the even digit (on the exact value;
  the binary representation of the float is not modelled).
\<close>

definition py_round1 :: "real \<Rightarrow> real" where
  "py_round1 x =
     (let y = x * 10; f = \<lfloor>y\<rfloor>; r = y - of_int f
      in (if r < 1 / 2 then of_int f
          else if r > 1 / 2 then of_int (f + 1)
          else if even f then of_int f else of_int (f + 1)) / 10)"

text \<open>
  The \<open>where\<close> clause of the event query: the unit, and the timestamp within the minute
  that ends at the cursor, both ends included. The column is naive; a bound that carries
  an offset is compared by its wall-clock fields.
\<close>

definition in_replay_window :: "int \<Rightarrow> pydatetime \<Rightarrow> Event \<Rightarrow> bool" where
  "in_replay_window unit_id timestamp e \<longleftrightarrow>
     ev_unit_id e = Some unit_id
     \<and> wall (dt_add timestamp (- timedelta_minutes 1)) \<le> ev_timestamp e
     \<and> ev_timestamp e \<le> wall timestamp"

text \<open>
  \<open>event.event_type.value\<close>: the attribute \<open>value\<close> of a \<open>str\<close>. A \<open>str\<close> has no such
  attribute, so the access raises \<open>AttributeError\<close> whatever the string.
\<close>

definition str_value :: "string \<Rightarrow> py_error + string" where
  "str_value s = Inl AttributeError"

definition marker_of :: "Event \<Rightarrow> py_error + event_marker" where
  "marker_of e =
     (case str_value (ev_event_type e) of
        Inl err \<Rightarrow> Inl err
      | Inr v \<Rightarrow>
          Inr \<lparr>em_id = ev_id e, em_type = v,
               em_timestamp = ev_timestamp e, em_patient_id = ev_patient_id e,
               em_bed_id = ev_bed_id e, em_data = ev_data e\<rparr>)"

text \<open>
  The bed change an event contributes: none unless \<open>event.bed_id\<close> is truthy (set and
  not 0) and the kind is one of the four bed kinds. \<open>EventType\<close> is a \<open>str\<close> enum, so the
  stored string is compared with the value of the member.
\<close>

definition bed_change_of :: "Event \<Rightarrow> bed_change list" where
  "bed_change_of e =
     (case ev_bed_id e of
        None \<Rightarrow> []
      | Some b \<Rightarrow>
          if b \<noteq> 0 \<and> ev_event_type e \<in> set (map EventType_value
                                               [ET_BED_ASSIGNMENT, ET_DISCHARGE, ET_CLEANING_START, ET_CLEANING_END])
          then
            (if ev_event_type e = EventType_value ET_DISCHARGE
               then [\<lparr>bc_bed_id = b, bc_status = ''empty'', bc_patient_id = None\<rparr>]
             else if ev_event_type e = EventType_value ET_CLEANING_START
               then [\<lparr>bc_bed_id = b, bc_status = ''cleaning'', bc_patient_id = None\<rparr>]
             else if ev_event_type e = EventType_value ET_CLEANING_END
               then [\<lparr>bc_bed_id = b, bc_status = ''empty'', bc_patient_id = None\<rparr>]
             else [\<lparr>bc_bed_id = b, bc_status = ''occupied'', bc_patient_id = ev_patient_id e\<rparr>])
          else [])"

text \<open>
  The \<open>for event in events\<close> loop: the marker first, then the bed change; the first
  exception ends it.
\<close>

fun collect_events ::
  "Event list \<Rightarrow> bed_change list \<Rightarrow> event_marker list \<Rightarrow> py_error + bed_change list \<times> event_marker list"
where
  "collect_events [] changes markers = Inr (changes, markers)"
| "collect_events (event # events) changes markers =
     (case marker_of event of
        Inl err \<Rightarrow> Inl err
      | Inr m \<Rightarrow> collect_events events (changes @ bed_change_of event) (markers @ [m]))"

text \<open>
  \<open>get_replay_delta\<close>. The two queries are a filter over the stored rows; \<open>ORDER BY
  timestamp\<close> is a stable sort of the rows in storage order.
\<close>

definition get_replay_delta :: "database \<Rightarrow> int \<Rightarrow> pydatetime \<Rightarrow> py_error + replay_delta" where
  "get_replay_delta db unit_id timestamp =
     (let beds = filter (\<lambda>b. bed_unit_id b = unit_id) (db_beds db);
          events = sort_key ev_timestamp (filter (in_replay_window unit_id timestamp) (db_events db))
      in case collect_events events [] [] of
           Inl err \<Rightarrow> Inl err
         | Inr (changes, markers) \<Rightarrow>
             let occupied_count = length (filter (\<lambda>b. bed_status b = ''occupied'') beds);
                 total_beds = length beds
             in Inr \<lparr>bed_changes = changes,
                     event_markers = markers,
                     delta_metrics =
                       \<lparr>occupancy_percent =
                          (if total_beds > 0 then py_round1 (real occupied_count / real total_beds * 100) else 0),
                        average_los_hours = 13 / 2,
                        average_time_to_bed_minutes = 35,
                        rm_sla_breaches = 0,
                        imaging_queue_length = 0,
                        ed_waiting_count = 0,
                        nurse_load_average = (if occupied_count > 0 then real occupied_count / 6 else 0)\<rparr>\<rparr>)"

text \<open>
  Inbound control messages, each a JSON object. \<open>msg_time\<close> is what
  \<open>datetime.fromisoformat\<close> makes of the \<open>time\<close> entry (\<open>None\<close>: no entry, so the call
  gets \<open>None\<close>; \<open>BadTime\<close>: a string it cannot parse; \<open>NotAString\<close>: another JSON value);
  \<open>msg_value\<close> is what \<open>float\<close> makes of the \<open>value\<close> entry (\<open>None\<close>: no entry, the
  default 1.0 is used; \<open>BadValue\<close>: a string it cannot parse; \<open>NotANumber\<close>: \<open>null\<close>, a
  list or an object).
\<close>

datatype time_arg = BadTime | NotAString | GoodTime pydatetime

datatype num_arg = BadValue | NotANumber | NumValue real

datatype message = Message (msg_action: "string option") (msg_time: "time_arg option") (msg_value: "num_arg option")

text \<open>
  What one poll of the socket gives: nothing within the timeout, a message, or the peer
  has gone (\<open>receive_json\<close> raises \<open>WebSocketDisconnect\<close>).
\<close>

datatype inbound = Timeout | Received message | Disconnect

record replay_state =
  rp_current_time :: pydatetime
  rp_is_playing :: bool
  rp_speed :: real

datatype frame = Tick pydatetime replay_delta | ErrorFrame py_error | Complete

text \<open>
  What the handler does, in order: a frame handed to \<open>send_message\<close>, a sleep, and, as
  the last entry, an exception that leaves the handler uncaught.
\<close>

datatype effect = Send frame | Sleep real | Raise py_error

text \<open>
  The effect of one control message on the loop variables: an exception, \<open>stop\<close>
  (\<open>None\<close>), or the new variables.
\<close>

definition apply_message :: "message \<Rightarrow> replay_state \<Rightarrow> py_error + replay_state option" where
  "apply_message m st =
     (if msg_action m = Some ''pause'' then Inr (Some (st\<lparr>rp_is_playing := False\<rparr>))
      else if msg_action m = Some ''play'' then Inr (Some (st\<lparr>rp_is_playing := True\<rparr>))
      else if msg_action m = Some ''seek'' then
        (case msg_time m of
           None \<Rightarrow> Inl TypeError
         | Some BadTime \<Rightarrow> Inl ValueError
         | Some NotAString \<Rightarrow> Inl TypeError
         | Some (GoodTime t) \<Rightarrow> Inr (Some (st\<lparr>rp_current_time := t\<rparr>)))
      else if msg_action m = Some ''speed'' then
        (case msg_value m of
           None \<Rightarrow> Inr (Some (st\<lparr>rp_speed := 1\<rparr>))
         | Some BadValue \<Rightarrow> Inl ValueError
         | Some NotANumber \<Rightarrow> Inl TypeError
         | Some (NumValue v) \<Rightarrow> Inr (Some (st\<lparr>rp_speed := v\<rparr>)))
      else if msg_action m = Some ''stop'' then Inr None
      else Inr (Some st))"

text \<open>
  One pass through the body of the \<open>while\<close> loop, after the poll: either the loop is left
  (with the frames sent on the way out) or it goes on with new variables. Every
  exception raised in the body, \<open>WebSocketDisconnect\<close> from the poll included, is caught
  by \<open>except Exception\<close>: an error frame is sent and the loop is left.
\<close>

datatype step_result = Break "effect list" | Continue replay_state "effect list"

definition tick_step :: "database \<Rightarrow> int \<Rightarrow> replay_state \<Rightarrow> step_result" where
  "tick_step db unit_id st =
     (if \<not> rp_is_playing st then Continue st [Sleep (1 / 10)]
      else
        case get_replay_delta db unit_id (rp_current_time st) of
          Inl err \<Rightarrow> Break [Send (ErrorFrame err)]
        | Inr delta \<Rightarrow>
            let tick = Send (Tick (rp_current_time st) delta);
                st' = st\<lparr>rp_current_time := dt_add (rp_current_time st) (timedelta_seconds 60)\<rparr>
            in if rp_speed st' = 0 then Break [tick, Send (ErrorFrame ZeroDivisionError)]
               else Continue st' [tick, Sleep (1 / rp_speed st')])"

definition replay_step :: "database \<Rightarrow> int \<Rightarrow> replay_state \<Rightarrow> inbound \<Rightarrow> step_result" where
  "replay_step db unit_id st polled =
     (case polled of
        Disconnect \<Rightarrow> Break [Send (ErrorFrame WebSocketDisconnect)]
      | Timeout \<Rightarrow> tick_step db unit_id st
      | Received m \<Rightarrow>
          (case apply_message m st of
             Inl e \<Rightarrow> Break [Send (ErrorFrame e)]
           | Inr None \<Rightarrow> Break []
           | Inr (Some st') \<Rightarrow> tick_step db unit_id st'))"

text \<open>
  The \<open>while current_time < end_time\<close> loop. \<open>inbox\<close> lists what the successive polls
  give; once it is used up every poll times out. The result is everything sent and
  slept; a stream that never ends (paused for good) has no result. The loop condition is
  outside the inner \<open>try\<close>: when the comparison raises, the exception leaves the handler
  and no \<open>complete\<close> frame is sent.
\<close>

partial_function (option) replay_loop ::
  "database \<Rightarrow> int \<Rightarrow> pydatetime \<Rightarrow> replay_state \<Rightarrow> inbound list \<Rightarrow> effect list \<Rightarrow> effect list option"
where
  "replay_loop db unit_id end_time st inbox out =
     (case dt_less (rp_current_time st) end_time of
        Inl err \<Rightarrow> Some (out @ [Raise err])
      | Inr go_on \<Rightarrow>
          if go_on then
            (case replay_step db unit_id st (case inbox of [] \<Rightarrow> Timeout | m # _ \<Rightarrow> m) of
               Break fs \<Rightarrow> Some (out @ fs @ [Send Complete])
             | Continue st' fs \<Rightarrow> replay_loop db unit_id end_time st' (tl inbox) (out @ fs))
          else Some (out @ [Send Complete]))"

text \<open>
  \<open>replay_websocket\<close>. \<open>start_time\<close> is the query parameter after parsing (\<open>None\<close>: absent
  or empty); a parse failure is raised before the loop. The framework admits \<open>speed\<close>
  only within \<open>[0.1, 10.0]\<close> (\<open>Query(ge=0.1, le=10.0)\<close>) and answers anything else with
  a validation error.
\<close>

definition replay_websocket ::
  "database \<Rightarrow> int \<Rightarrow> time_arg option \<Rightarrow> real \<Rightarrow> inbound list \<Rightarrow> py_error + effect list option"
where
  "replay_websocket db unit_id start_time speed0 inbox =
     (if speed0 < 1 / 10 \<or> speed0 > 10 then Inl ValueError
      else
        case (case start_time of None \<Rightarrow> Inr default_start_time
                                | Some BadTime \<Rightarrow> Inl ValueError
                                | Some NotAString \<Rightarrow> Inl TypeError
                                | Some (GoodTime t) \<Rightarrow> Inr t) of
          Inl e \<Rightarrow> Inl e
        | Inr t0 \<Rightarrow>
            Inr (replay_loop db unit_id (dt_add t0 (timedelta_hours 24))
                   \<lparr>rp_current_time = t0, rp_is_playing = True, rp_speed = speed0\<rparr> inbox []))"
section \<open>Simulation engine: \<open>app/simulation/engine.py\<close>\<close>

subsection \<open>The random generator\<close>

text \<open>
  The engine draws from \<open>numpy.random.default_rng(seed)\<close>, which is not code of the
  repository. It is a parameter of the model: a generator state \<open>'g\<close>, the state made
  from a seed, and the four draws the engine uses, each taking the state and returning
  the value drawn with the next state. \<open>exponential\<close> and \<open>choice\<close> can reject their
  arguments (a negative scale, weights that are no distribution).
\<close>

record 'g Generator =
  default_rng :: "int \<Rightarrow> 'g"
  rng_exponential :: "real \<Rightarrow> 'g \<Rightarrow> py_error + real \<times> 'g"
  rng_choice :: "string list \<Rightarrow> real list \<Rightarrow> 'g \<Rightarrow> py_error + string \<times> 'g"
  rng_random :: "'g \<Rightarrow> real \<times> 'g"
  rng_integers :: "int \<Rightarrow> int \<Rightarrow> 'g \<Rightarrow> int \<times> 'g"

subsection \<open>Entities\<close>

datatype SimEventType =
    ARRIVAL | TRIAGE_START | TRIAGE_END | BED_REQUEST | BED_ASSIGNED
  | IMAGING_REQUEST | IMAGING_START | IMAGING_END | CONSULT_REQUEST | CONSULT_END
  | DISCHARGE | CLEANING_START | CLEANING_END

text \<open>
  The \<open>data\<close> dictionary of an event has one of three shapes in the engine: empty (the
  default), the three entries of an arrival, or the \<open>bed_id\<close> entry of a cleaning end.
  Reading an entry a dictionary does not have raises \<open>KeyError\<close>.
\<close>

datatype event_data = NoData | ArrivalData string bool bool | BedData int

record SimEvent =
  time :: real
  event_type :: SimEventType
  entity_id :: int
  data :: event_data

record SimPatient =
  p_id :: int
  acuity :: string
  arrival_time :: real
  requires_imaging :: bool
  requires_consult :: bool
  triage_time :: "real option"
  bed_assigned_time :: "real option"
  imaging_start_time :: "real option"
  imaging_end_time :: "real option"
  discharge_time :: "real option"
  bed_id :: "int option"
  nurse_id :: "int option"

record SimBed =
  b_id :: int
  bed_type :: string
  is_occupied :: bool
  is_cleaning :: bool
  patient_id :: "int option"
  available_at :: real

record SimNurse =
  n_id :: int
  max_patients :: int
  assigned_patients :: "int list"
  shift_start :: real
  shift_end :: real

text \<open>The scenario parameters: a dictionary whose entries may be missing (\<open>.get\<close> with a default).\<close>

record Parameters =
  p_arrival_multiplier :: "real option"
  p_acuity_mix :: "(string \<times> real) list option"
  p_beds_available :: "int option"
  p_nurse_count :: "(string \<times> int) list option"
  p_imaging_capacity :: "real option"
  p_transport_capacity :: "real option"

text \<open>The dictionaries appended to \<open>patient_outcomes\<close> and \<open>bottleneck_events\<close>.\<close>

record outcome =
  o_patient_id :: int
  o_acuity :: string
  wait_time :: "real option"
  los :: "real option"
  had_imaging :: bool
  imaging_delay :: "real option"

record bottleneck_event =
  bn_time :: real
  constraint :: string
  bn_patient_id :: int
  queue_length :: "nat option"
  description :: "string option"

text \<open>
  The engine object. A Python dictionary is an association list in insertion order:
  \<open>map_of\<close> reads a key, \<open>AList.update\<close> writes one (in place when the key exists, at
  the end otherwise), and iteration follows the list. An entity object is reached
  through its key in its dictionary, so mutating it is writing the changed record back
  under that key.
\<close>

record 'g SimulationEngine =
  params :: Parameters
  rng :: 'g
  current_time :: real
  event_queue :: "SimEvent list"
  patients :: "(int \<times> SimPatient) list"
  beds :: "(int \<times> SimBed) list"
  nurses :: "(int \<times> SimNurse) list"
  bed_queue :: "int list"
  imaging_queue :: "int list"
  transport_queue :: "int list"
  imaging_capacity :: int
  imaging_in_use :: int
  transport_capacity :: int
  transport_in_use :: int
  patient_counter :: int
  timeseries :: "(string \<times> real list) list"
  patient_outcomes :: "outcome list"
  bottleneck_events :: "bottleneck_event list"

text \<open>\<open>self.end_time = 24 * 60\<close>: set in the constructor and never assigned again.\<close>

definition end_time :: real where
  "end_time = 24 * 60"

text \<open>A \<open>defaultdict(list)\<close>: reading a missing key stores the empty list under it.\<close>

definition dd_get :: "string \<Rightarrow> (string \<times> real list) list \<Rightarrow> real list \<times> (string \<times> real list) list" where
  "dd_get k d = (case map_of d k of Some v \<Rightarrow> (v, d) | None \<Rightarrow> ([], AList.update k [] d))"

definition dd_append :: "string \<Rightarrow> real \<Rightarrow> (string \<times> real list) list \<Rightarrow> (string \<times> real list) list" where
  "dd_append k x d = AList.update k (fst (dd_get k d) @ [x]) d"

subsection \<open>The event queue: \<open>heapq\<close> on a list\<close>

text \<open>
  \<open>heapq.heappush\<close> and \<open>heapq.heappop\<close> of the Python standard library, on the list
  that is the heap. \<open>SimEvent\<close> is ordered by \<open>time\<close> alone (the other fields are
  declared \<open>compare=False\<close>), so \<open>a < b\<close> is \<open>time a < time b\<close>.
\<close>

function siftdown_loop :: "SimEvent list \<Rightarrow> nat \<Rightarrow> nat \<Rightarrow> SimEvent \<Rightarrow> SimEvent list" where
  "siftdown_loop heap startpos pos newitem =
     (if pos > startpos then
        let parentpos = (pos - 1) div 2;
            parent = heap ! parentpos
        in if time newitem < time parent
           then siftdown_loop (heap[pos := parent]) startpos parentpos newitem
           else heap[pos := newitem]
      else heap[pos := newitem])"
  by pat_completeness auto
termination
  by (relation "measure (\<lambda>(heap, startpos, pos, newitem). pos)") auto

declare siftdown_loop.simps [simp del]

definition siftdown :: "SimEvent list \<Rightarrow> nat \<Rightarrow> nat \<Rightarrow> SimEvent list" where
  "siftdown heap startpos pos = siftdown_loop heap startpos pos (heap ! pos)"

function siftup_loop :: "SimEvent list \<Rightarrow> nat \<Rightarrow> nat \<Rightarrow> SimEvent list \<times> nat" where
  "siftup_loop heap endpos pos =
     (let childpos = 2 * pos + 1 in
      if childpos < endpos then
        let rightpos = childpos + 1;
            childpos' = (if rightpos < endpos \<and> \<not> time (heap ! childpos) < time (heap ! rightpos)
                         then rightpos else childpos)
        in siftup_loop (heap[pos := heap ! childpos']) endpos childpos'
      else (heap, pos))"
  by pat_completeness auto
termination
  by (relation "measure (\<lambda>(heap, endpos, pos). endpos - pos)") (auto simp: Let_def)

declare siftup_loop.simps [simp del]

definition siftup :: "SimEvent list \<Rightarrow> nat \<Rightarrow> SimEvent list" where
  "siftup heap pos =
     (let newitem = heap ! pos;
          (heap', pos') = siftup_loop heap (length heap) pos
      in siftdown (heap'[pos' := newitem]) pos pos')"

definition heappush :: "SimEvent list \<Rightarrow> SimEvent \<Rightarrow> SimEvent list" where
  "heappush heap item = siftdown (heap @ [item]) 0 (length heap)"

definition heappop :: "SimEvent list \<Rightarrow> py_error + SimEvent \<times> SimEvent list" where
  "heappop heap =
     (if heap = [] then Inl IndexError
      else
        let lastelt = last heap; rest = butlast heap
        in if rest \<noteq> [] then Inr (hd rest, siftup (rest[0 := lastelt]) 0)
           else Inr (lastelt, rest))"

subsection \<open>Construction\<close>

definition initialize_resources :: "'g SimulationEngine \<Rightarrow> 'g SimulationEngine" where
  "initialize_resources st =
     (let num_beds = (case p_beds_available (params st) of None \<Rightarrow> 24 | Some n \<Rightarrow> n);
          nurse_count =
            (case map_of (case p_nurse_count (params st) of None \<Rightarrow> [] | Some d \<Rightarrow> d) ''day'' of
               None \<Rightarrow> 6 | Some n \<Rightarrow> n)
      in st\<lparr>beds :=
               fold (\<lambda>i. AList.update i
                      \<lparr>b_id = i, bed_type = (if i \<in> set [1, num_beds] then ''isolation'' else ''standard''),
                       is_occupied = False, is_cleaning = False, patient_id = None, available_at = 0\<rparr>)
                    [1..num_beds] (beds st),
             nurses :=
               fold (\<lambda>i. AList.update i
                      \<lparr>n_id = i, max_patients = 4, assigned_patients = [], shift_start = 0, shift_end = 480\<rparr>)
                    [1..nurse_count] (nurses st)\<rparr>)"

text \<open>
  \<open>SimulationEngine.__init__\<close>. (\<open>random.seed(seed)\<close> seeds the global generator of
  the \<open>random\<close> module, which the engine never draws from.) The numbers of the engine
  are exact reals here, not binary floats: a capacity so large that its double is \<open>inf\<close>
  (for which \<open>int\<close> raises \<open>OverflowError\<close>) has no counterpart.
\<close>

definition SimulationEngine_init :: "'g Generator \<Rightarrow> Parameters \<Rightarrow> int \<Rightarrow> 'g SimulationEngine" where
  "SimulationEngine_init G parameters seed =
     initialize_resources
       \<lparr>params = parameters,
        rng = default_rng G seed,
        current_time = 0,
        event_queue = [],
        patients = [],
        beds = [],
        nurses = [],
        bed_queue = [],
        imaging_queue = [],
        transport_queue = [],
        imaging_capacity =
          py_int ((case p_imaging_capacity parameters of None \<Rightarrow> 1 | Some c \<Rightarrow> c) * 2),
        imaging_in_use = 0,
        transport_capacity =
          py_int ((case p_transport_capacity parameters of None \<Rightarrow> 1 | Some c \<Rightarrow> c) * 2),
        transport_in_use = 0,
        patient_counter = 0,
        timeseries = [],
        patient_outcomes = [],
        bottleneck_events = []\<rparr>"

definition schedule_event :: "SimEvent \<Rightarrow> 'g SimulationEngine \<Rightarrow> 'g SimulationEngine" where
  "schedule_event event st = st\<lparr>event_queue := heappush (event_queue st) event\<rparr>"

subsection \<open>Arrivals\<close>

definition default_acuity_mix :: "(string \<times> real) list" where
  "default_acuity_mix = [(''low'', 3 / 10), (''medium'', 1 / 2), (''high'', 15 / 100), (''critical'', 5 / 100)]"

text \<open>
  One pass of the \<open>while current_arrival < self.end_time\<close> loop: an exception, the
  \<open>break\<close> (\<open>Inr (Inl st)\<close>), or the next \<open>current_arrival\<close> with the new engine state.
\<close>

definition arrival_step ::
  "'g Generator \<Rightarrow> real \<Rightarrow> (string \<times> real) list \<Rightarrow> real \<Rightarrow> 'g SimulationEngine
     \<Rightarrow> py_error + ('g SimulationEngine + real \<times> 'g SimulationEngine)"
where
  "arrival_step G arrival_rate acuity_mix current_arrival st =
     (if arrival_rate = 0 then Inl ZeroDivisionError
      else
        case rng_exponential G (60 / arrival_rate) (rng st) of
          Inl e \<Rightarrow> Inl e
        | Inr (inter_arrival, g1) \<Rightarrow>
            let current_arrival' = current_arrival + inter_arrival in
            if current_arrival' \<ge> end_time then Inr (Inl (st\<lparr>rng := g1\<rparr>))
            else
              let counter = patient_counter st + 1 in
              case rng_choice G (map fst acuity_mix) (map snd acuity_mix) g1 of
                Inl e \<Rightarrow> Inl e
              | Inr (acuity_drawn, g2) \<Rightarrow>
                  let (r1, g3) = rng_random G g2;
                      (r2, g4) = rng_random G g3
                  in Inr (Inr (current_arrival',
                       schedule_event
                         \<lparr>time = current_arrival', event_type = ARRIVAL, entity_id = counter,
                          data = ArrivalData acuity_drawn (r1 < 4 / 10) (r2 < 25 / 100)\<rparr>
                         (st\<lparr>rng := g4, patient_counter := counter\<rparr>))))"

partial_function (option) arrivals_loop ::
  "'g Generator \<Rightarrow> real \<Rightarrow> (string \<times> real) list \<Rightarrow> real \<Rightarrow> 'g SimulationEngine
     \<Rightarrow> (py_error + 'g SimulationEngine) option"
where
  "arrivals_loop G arrival_rate acuity_mix current_arrival st =
     (if current_arrival < end_time then
        (case arrival_step G arrival_rate acuity_mix current_arrival st of
           Inl e \<Rightarrow> Some (Inl e)
         | Inr (Inl st') \<Rightarrow> Some (Inr st')
         | Inr (Inr (current_arrival', st')) \<Rightarrow> arrivals_loop G arrival_rate acuity_mix current_arrival' st')
      else Some (Inr st))"

definition generate_arrivals :: "'g Generator \<Rightarrow> 'g SimulationEngine \<Rightarrow> (py_error + 'g SimulationEngine) option" where
  "generate_arrivals G st =
     (let arrival_rate = 125 / 10 * (case p_arrival_multiplier (params st) of None \<Rightarrow> 1 | Some m \<Rightarrow> m);
          acuity_mix = (case p_acuity_mix (params st) of None \<Rightarrow> default_acuity_mix | Some d \<Rightarrow> d)
      in arrivals_loop G arrival_rate acuity_mix 0 st)"

subsection \<open>Handlers\<close>

definition handle_arrival :: "'g Generator \<Rightarrow> SimEvent \<Rightarrow> 'g SimulationEngine \<Rightarrow> py_error + 'g SimulationEngine" where
  "handle_arrival G event st =
     (case data event of
        ArrivalData a ri rc \<Rightarrow>
          let patient =
                \<lparr>p_id = entity_id event, acuity = a, arrival_time = time event,
                 requires_imaging = ri, requires_consult = rc,
                 triage_time = None, bed_assigned_time = None, imaging_start_time = None,
                 imaging_end_time = None, discharge_time = None, bed_id = None, nurse_id = None\<rparr>;
              (triage_duration, g1) = rng_integers G 5 15 (rng st)
          in Inr (schedule_event
                    \<lparr>time = time event + of_int triage_duration, event_type = TRIAGE_END,
                     entity_id = p_id patient, data = NoData\<rparr>
                    (st\<lparr>patients := AList.update (p_id patient) patient (patients st), rng := g1\<rparr>))
      | _ \<Rightarrow> Inl KeyError)"

text \<open>
  The scan of \<open>_assign_nurse\<close> over \<open>self.nurses.values()\<close>: the best nurse so far
  (its key, the object, its load \<open>min_load\<close>), \<open>None\<close> standing for no nurse and the load
  \<open>inf\<close>.
\<close>

definition nurse_scan :: "(int \<times> SimNurse \<times> nat) option \<Rightarrow> int \<times> SimNurse \<Rightarrow> (int \<times> SimNurse \<times> nat) option" where
  "nurse_scan best kn =
     (let load = length (assigned_patients (snd kn)) in
      if int load < max_patients (snd kn) \<and> (case best of None \<Rightarrow> True | Some (_, _, min_load) \<Rightarrow> load < min_load)
      then Some (fst kn, snd kn, load) else best)"

definition assign_nurse ::
  "int \<Rightarrow> SimPatient \<Rightarrow> real \<Rightarrow> 'g SimulationEngine \<Rightarrow> SimPatient \<times> 'g SimulationEngine"
where
  "assign_nurse pkey patient t st =
     (case foldl nurse_scan None (nurses st) of
        Some (nkey, best_nurse, _) \<Rightarrow>
          let patient' = patient\<lparr>nurse_id := Some (n_id best_nurse)\<rparr>
          in (patient',
              st\<lparr>nurses := AList.update nkey
                              (best_nurse\<lparr>assigned_patients := assigned_patients best_nurse @ [p_id patient]\<rparr>)
                              (nurses st),
                 patients := AList.update pkey patient' (patients st)\<rparr>)
      | None \<Rightarrow>
          (patient,
           st\<lparr>bottleneck_events := bottleneck_events st @
                 [\<lparr>bn_time = t, constraint = ''nurse_staffing'', bn_patient_id = p_id patient,
                   queue_length = None, description = Some ''All nurses at max capacity''\<rparr>]\<rparr>))"

definition los_range :: "string \<Rightarrow> int \<times> int" where
  "los_range a =
     (case map_of [(''low'', (120, 360)), (''medium'', (240, 720)),
                   (''high'', (480, 1440)), (''critical'', (720, 2880))] a of
        Some r \<Rightarrow> r | None \<Rightarrow> (240, 720))"

text \<open>
  \<open>_assign_bed(patient, bed, time)\<close>: the patient and the bed are the objects stored
  under \<open>pkey\<close> and \<open>bkey\<close>.
\<close>

definition assign_bed ::
  "'g Generator \<Rightarrow> int \<Rightarrow> SimPatient \<Rightarrow> int \<Rightarrow> SimBed \<Rightarrow> real \<Rightarrow> 'g SimulationEngine \<Rightarrow> 'g SimulationEngine"
where
  "assign_bed G pkey patient bkey bed t st =
     (let bed' = bed\<lparr>is_occupied := True, patient_id := Some (p_id patient)\<rparr>;
          patient1 = patient\<lparr>bed_id := Some (b_id bed), bed_assigned_time := Some t\<rparr>;
          st1 = st\<lparr>beds := AList.update bkey bed' (beds st),
                   patients := AList.update pkey patient1 (patients st)\<rparr>;
          (patient2, st2) = assign_nurse pkey patient1 t st1;
          st3 = (if requires_imaging patient2 then
                   let (imaging_delay, g1) = rng_integers G 15 45 (rng st2)
                   in schedule_event
                        \<lparr>time = t + of_int imaging_delay, event_type = IMAGING_REQUEST,
                         entity_id = p_id patient2, data = NoData\<rparr>
                        (st2\<lparr>rng := g1\<rparr>)
                 else st2);
          (los_minutes, g2) = rng_integers G (fst (los_range (acuity patient2))) (snd (los_range (acuity patient2))) (rng st3);
          st4 = st3\<lparr>rng := g2\<rparr>;
          discharge_time = t + of_int los_minutes
      in if discharge_time < end_time
         then schedule_event
                \<lparr>time = discharge_time, event_type = DISCHARGE, entity_id = p_id patient2, data = NoData\<rparr> st4
         else st4)"

definition bed_available :: "real \<Rightarrow> int \<times> SimBed \<Rightarrow> bool" where
  "bed_available t kb \<longleftrightarrow> \<not> is_occupied (snd kb) \<and> \<not> is_cleaning (snd kb) \<and> available_at (snd kb) \<le> t"

definition request_bed :: "'g Generator \<Rightarrow> int \<Rightarrow> real \<Rightarrow> 'g SimulationEngine \<Rightarrow> py_error + 'g SimulationEngine" where
  "request_bed G patient_id' t st =
     (case map_of (patients st) patient_id' of
        None \<Rightarrow> Inl KeyError
      | Some patient \<Rightarrow>
          (case find (bed_available t) (beds st) of
             Some (bkey, available_bed) \<Rightarrow> Inr (assign_bed G patient_id' patient bkey available_bed t st)
           | None \<Rightarrow>
               let queue = bed_queue st @ [patient_id']
               in Inr (st\<lparr>bed_queue := queue,
                          bottleneck_events := bottleneck_events st @
                            [\<lparr>bn_time = t, constraint = ''bed_availability'', bn_patient_id = patient_id',
                              queue_length = Some (length queue), description = None\<rparr>]\<rparr>)))"

definition handle_triage_end :: "'g Generator \<Rightarrow> SimEvent \<Rightarrow> 'g SimulationEngine \<Rightarrow> py_error + 'g SimulationEngine" where
  "handle_triage_end G event st =
     (case map_of (patients st) (entity_id event) of
        None \<Rightarrow> Inl KeyError
      | Some patient \<Rightarrow>
          let patient' = patient\<lparr>triage_time := Some (time event)\<rparr>
          in request_bed G (p_id patient') (time event)
               (st\<lparr>patients := AList.update (entity_id event) patient' (patients st)\<rparr>))"

definition handle_imaging_request :: "'g Generator \<Rightarrow> SimEvent \<Rightarrow> 'g SimulationEngine \<Rightarrow> py_error + 'g SimulationEngine" where
  "handle_imaging_request G event st =
     (let patient_id' = entity_id event in
      if imaging_in_use st < imaging_capacity st then
        let (duration, g1) = rng_integers G 20 60 (rng st);
            st1 = schedule_event
                    \<lparr>time = time event + of_int duration, event_type = IMAGING_END,
                     entity_id = patient_id', data = NoData\<rparr>
                    (st\<lparr>imaging_in_use := imaging_in_use st + 1, rng := g1\<rparr>)
        in (case map_of (patients st1) patient_id' of
              None \<Rightarrow> Inl KeyError
            | Some patient \<Rightarrow>
                Inr (st1\<lparr>patients := AList.update patient_id'
                                        (patient\<lparr>imaging_start_time := Some (time event)\<rparr>) (patients st1)\<rparr>))
      else
        let queue = imaging_queue st @ [patient_id']
        in Inr (st\<lparr>imaging_queue := queue,
                   bottleneck_events := bottleneck_events st @
                     [\<lparr>bn_time = time event, constraint = ''imaging_capacity'', bn_patient_id = patient_id',
                       queue_length = Some (length queue), description = None\<rparr>]\<rparr>))"

definition handle_imaging_end :: "'g Generator \<Rightarrow> SimEvent \<Rightarrow> 'g SimulationEngine \<Rightarrow> py_error + 'g SimulationEngine" where
  "handle_imaging_end G event st =
     (case map_of (patients st) (entity_id event) of
        None \<Rightarrow> Inl KeyError
      | Some patient \<Rightarrow>
          let st1 = st\<lparr>patients := AList.update (entity_id event)
                                      (patient\<lparr>imaging_end_time := Some (time event)\<rparr>) (patients st),
                       imaging_in_use := imaging_in_use st - 1\<rparr>
          in (case imaging_queue st1 of
                [] \<Rightarrow> Inr st1
              | next_patient_id # waiting \<Rightarrow>
                  let (duration, g1) = rng_integers G 20 60 (rng st1);
                      st2 = schedule_event
                              \<lparr>time = time event + of_int duration, event_type = IMAGING_END,
                               entity_id = next_patient_id, data = NoData\<rparr>
                              (st1\<lparr>imaging_queue := waiting, imaging_in_use := imaging_in_use st1 + 1, rng := g1\<rparr>)
                  in (case map_of (patients st2) next_patient_id of
                        None \<Rightarrow> Inl KeyError
                      | Some next_patient \<Rightarrow>
                          Inr (st2\<lparr>patients := AList.update next_patient_id
                                                  (next_patient\<lparr>imaging_start_time := Some (time event)\<rparr>)
                                                  (patients st2)\<rparr>))))"

text \<open>
  The three parts of \<open>_handle_discharge\<close> after the discharge stamp. \<open>if patient.bed_id\<close>
  and the like test truthiness: \<open>None\<close> and zero are false.
\<close>

definition free_bed :: "'g Generator \<Rightarrow> SimEvent \<Rightarrow> SimPatient \<Rightarrow> 'g SimulationEngine \<Rightarrow> py_error + 'g SimulationEngine" where
  "free_bed G event patient st =
     (case bed_id patient of
        None \<Rightarrow> Inr st
      | Some bkey \<Rightarrow>
          if bkey = 0 then Inr st
          else
            (case map_of (beds st) bkey of
               None \<Rightarrow> Inl KeyError
             | Some bed \<Rightarrow>
                 let (cleaning_time, g1) = rng_integers G 15 30 (rng st)
                 in Inr (schedule_event
                           \<lparr>time = time event + of_int cleaning_time, event_type = CLEANING_END,
                            entity_id = bkey, data = BedData bkey\<rparr>
                           (st\<lparr>beds := AList.update bkey
                                           (bed\<lparr>is_occupied := False, is_cleaning := True, patient_id := None\<rparr>)
                                           (beds st),
                               rng := g1\<rparr>))))"

definition free_nurse :: "SimPatient \<Rightarrow> 'g SimulationEngine \<Rightarrow> py_error + 'g SimulationEngine" where
  "free_nurse patient st =
     (case nurse_id patient of
        None \<Rightarrow> Inr st
      | Some nkey \<Rightarrow>
          if nkey = 0 then Inr st
          else
            (case map_of (nurses st) nkey of
               None \<Rightarrow> Inl KeyError
             | Some nurse \<Rightarrow>
                 if p_id patient \<in> set (assigned_patients nurse)
                 then Inr (st\<lparr>nurses := AList.update nkey
                                          (nurse\<lparr>assigned_patients := remove1 (p_id patient) (assigned_patients nurse)\<rparr>)
                                          (nurses st)\<rparr>)
                 else Inr st))"

text \<open>\<open>a - b if a else None\<close> and \<open>a - b if a and b else None\<close>, on optional floats.\<close>

definition diff_if :: "real option \<Rightarrow> real \<Rightarrow> real option" where
  "diff_if a b = (case a of None \<Rightarrow> None | Some x \<Rightarrow> if x = 0 then None else Some (x - b))"

definition diff_if_both :: "real option \<Rightarrow> real option \<Rightarrow> real option" where
  "diff_if_both a b =
     (case a of
        None \<Rightarrow> None
      | Some x \<Rightarrow>
          if x = 0 then None
          else (case b of None \<Rightarrow> None | Some y \<Rightarrow> if y = 0 then None else Some (x - y)))"

definition outcome_of :: "SimPatient \<Rightarrow> outcome" where
  "outcome_of patient =
     \<lparr>o_patient_id = p_id patient,
      o_acuity = acuity patient,
      wait_time = diff_if (bed_assigned_time patient) (arrival_time patient),
      los = diff_if (discharge_time patient) (arrival_time patient),
      had_imaging = requires_imaging patient,
      imaging_delay = diff_if_both (imaging_start_time patient) (bed_assigned_time patient)\<rparr>"

definition handle_discharge :: "'g Generator \<Rightarrow> SimEvent \<Rightarrow> 'g SimulationEngine \<Rightarrow> py_error + 'g SimulationEngine" where
  "handle_discharge G event st =
     (case map_of (patients st) (entity_id event) of
        None \<Rightarrow> Inl KeyError
      | Some patient0 \<Rightarrow>
          let patient = patient0\<lparr>discharge_time := Some (time event)\<rparr>;
              st1 = st\<lparr>patients := AList.update (entity_id event) patient (patients st)\<rparr>
          in (case free_bed G event patient st1 of
                Inl e \<Rightarrow> Inl e
              | Inr st2 \<Rightarrow>
                  (case free_nurse patient st2 of
                     Inl e \<Rightarrow> Inl e
                   | Inr st3 \<Rightarrow>
                       Inr (st3\<lparr>patient_outcomes := patient_outcomes st3 @ [outcome_of patient]\<rparr>))))"

definition handle_cleaning_end :: "'g Generator \<Rightarrow> SimEvent \<Rightarrow> 'g SimulationEngine \<Rightarrow> py_error + 'g SimulationEngine" where
  "handle_cleaning_end G event st =
     (case data event of
        BedData bed_id' \<Rightarrow>
          (case map_of (beds st) bed_id' of
             None \<Rightarrow> Inl KeyError
           | Some bed0 \<Rightarrow>
               let bed = bed0\<lparr>is_cleaning := False, available_at := time event\<rparr>;
                   st1 = st\<lparr>beds := AList.update bed_id' bed (beds st)\<rparr>
               in (case bed_queue st1 of
                     [] \<Rightarrow> Inr st1
                   | patient_id' # waiting \<Rightarrow>
                       (case map_of (patients st1) patient_id' of
                          None \<Rightarrow> Inl KeyError
                        | Some patient \<Rightarrow>
                            Inr (assign_bed G patient_id' patient bed_id' bed (time event)
                                   (st1\<lparr>bed_queue := waiting\<rparr>)))))
      | _ \<Rightarrow> Inl KeyError)"

definition process_event :: "'g Generator \<Rightarrow> SimEvent \<Rightarrow> 'g SimulationEngine \<Rightarrow> py_error + 'g SimulationEngine" where
  "process_event G event st =
     (case event_type event of
        ARRIVAL \<Rightarrow> handle_arrival G event st
      | TRIAGE_END \<Rightarrow> handle_triage_end G event st
      | IMAGING_REQUEST \<Rightarrow> handle_imaging_request G event st
      | IMAGING_END \<Rightarrow> handle_imaging_end G event st
      | DISCHARGE \<Rightarrow> handle_discharge G event st
      | CLEANING_END \<Rightarrow> handle_cleaning_end G event st
      | _ \<Rightarrow> Inr st)"

subsection \<open>The main loop\<close>

definition mean :: "real list \<Rightarrow> real" where
  "mean xs = sum_list xs / real (length xs)"

definition collect_metrics :: "'g SimulationEngine \<Rightarrow> 'g SimulationEngine" where
  "collect_metrics st =
     (let occupied = length (filter (\<lambda>kb. is_occupied (snd kb)) (beds st));
          total = length (beds st);
          avg_load = (if nurses st \<noteq> [] then mean (map (\<lambda>kn. real (length (assigned_patients (snd kn)))) (nurses st)) else 0)
      in st\<lparr>timeseries :=
               dd_append ''nurse_load'' avg_load
                (dd_append ''imaging_queue'' (real (length (imaging_queue st)))
                  (dd_append ''bed_queue'' (real (length (bed_queue st)))
                    (dd_append ''occupancy'' (if total > 0 then real occupied / real total * 100 else 0)
                      (dd_append ''time'' (current_time st) (timeseries st)))))\<rparr>)"

text \<open>
  The variables of \<open>run\<close> around the engine: \<open>last_metric_time\<close>, \<open>last_progress\<close>, and
  the state \<open>world\<close> that the progress callback acts on. The callback, when given, is a
  function from the reported percent to a change of that state. The percent
  \<open>int(current_time / end_time * 100)\<close> is computed on exact reals; in binary floating
  point the quotient and the product are rounded, and where the exact value is a whole
  number the float can fall just below it and the percent be one less.
\<close>

record ('g, 'w) run_state =
  engine :: "'g SimulationEngine"
  last_metric_time :: real
  last_progress :: int
  world :: 'w

definition metric_interval :: real where
  "metric_interval = 15"

definition report_progress :: "(int \<Rightarrow> 'w \<Rightarrow> 'w) option \<Rightarrow> ('g, 'w) run_state \<Rightarrow> ('g, 'w) run_state" where
  "report_progress progress_callback ls =
     (case progress_callback of
        None \<Rightarrow> ls
      | Some callback \<Rightarrow>
          let progress = py_int (current_time (engine ls) / end_time * 100)
          in if progress > last_progress ls
             then ls\<lparr>world := callback progress (world ls), last_progress := progress\<rparr>
             else ls)"

text \<open>One pass of \<open>while self.event_queue\<close>.\<close>

definition loop_body ::
  "'g Generator \<Rightarrow> (int \<Rightarrow> 'w \<Rightarrow> 'w) option \<Rightarrow> ('g, 'w) run_state \<Rightarrow> py_error + ('g, 'w) run_state"
where
  "loop_body G progress_callback ls =
     (case heappop (event_queue (engine ls)) of
        Inl e \<Rightarrow> Inl e
      | Inr (event, queue) \<Rightarrow>
          (case process_event G event ((engine ls)\<lparr>event_queue := queue, current_time := time event\<rparr>) of
             Inl e \<Rightarrow> Inl e
           | Inr st \<Rightarrow>
               Inr (report_progress progress_callback
                      (if current_time st - last_metric_time ls \<ge> metric_interval
                       then ls\<lparr>engine := collect_metrics st, last_metric_time := current_time st\<rparr>
                       else ls\<lparr>engine := st\<rparr>))))"

text \<open>
  The loop. An exception leaves it with what the callback has done so far; a loop that
  does not end has no value.
\<close>

partial_function (option) main_loop ::
  "'g Generator \<Rightarrow> (int \<Rightarrow> 'w \<Rightarrow> 'w) option \<Rightarrow> ('g, 'w) run_state \<Rightarrow> (py_error \<times> 'w + ('g, 'w) run_state) option"
where
  "main_loop G progress_callback ls =
     (if event_queue (engine ls) \<noteq> [] then
        (case loop_body G progress_callback ls of
           Inl e \<Rightarrow> Some (Inl (e, world ls))
         | Inr ls' \<Rightarrow> main_loop G progress_callback ls')
      else Some (Inr ls))"

subsection \<open>Results\<close>

record bottleneck =
  r_constraint :: string
  impact_score :: real
  occurrences :: nat
  avg_queue :: real
  r_description :: string

record metrics =
  total_patients :: nat
  avg_wait_time_minutes :: real
  median_wait_time_minutes :: real
  max_wait_time_minutes :: real
  avg_los_minutes :: real
  sla_breaches :: nat
  avg_occupancy :: real
  peak_occupancy :: real
  avg_nurse_load :: real

record results =
  res_metrics :: metrics
  res_timeseries :: "(string \<times> real list) list"
  res_bottlenecks :: "bottleneck list"

definition describe_bottleneck :: "string \<Rightarrow> string" where
  "describe_bottleneck c =
     (case map_of
        [(''bed_availability'', ''Insufficient bed capacity causing patient wait times''),
         (''nurse_staffing'', ''Nurse staffing ratios exceeded, delaying patient care''),
         (''imaging_capacity'', ''Imaging equipment utilization at maximum capacity''),
         (''transport_capacity'', ''Transport resources insufficient for demand'')] c of
        Some d \<Rightarrow> d
      | None \<Rightarrow> ''Constraint: '' @ c)"

text \<open>\<open>numpy.median\<close> and \<open>max\<close> of a non-empty list.\<close>

definition median :: "real list \<Rightarrow> real" where
  "median xs =
     (let s = sort xs; n = length s
      in if odd n then s ! (n div 2) else (s ! (n div 2 - 1) + s ! (n div 2)) / 2)"

definition py_max :: "real list \<Rightarrow> real" where
  "py_max xs = foldl max (hd xs) (tl xs)"

text \<open>
  The summary loop over \<open>self.bottleneck_events\<close>: a \<open>defaultdict\<close> from the constraint
  to its count and total queue length, in order of first occurrence.
\<close>

definition summary_step :: "(string \<times> nat \<times> nat) list \<Rightarrow> bottleneck_event \<Rightarrow> (string \<times> nat \<times> nat) list" where
  "summary_step summary b =
     (let (count, total_queue) = (case map_of summary (constraint b) of None \<Rightarrow> (0, 0) | Some ct \<Rightarrow> ct)
      in AList.update (constraint b)
           (count + 1, (case queue_length b of None \<Rightarrow> total_queue | Some q \<Rightarrow> total_queue + q))
           summary)"

definition bottleneck_of :: "nat \<Rightarrow> string \<times> nat \<times> nat \<Rightarrow> bottleneck" where
  "bottleneck_of n_outcomes entry =
     (let (c, count, total_queue) = entry
      in \<lparr>r_constraint = c,
          impact_score = real count / real (max n_outcomes 1),
          occurrences = count,
          avg_queue = (if count > 0 then real total_queue / real count else 0),
          r_description = describe_bottleneck c\<rparr>)"

text \<open>
  \<open>_calculate_results\<close>. \<open>sort(key=impact_score, reverse=True)\<close> is stable: equal scores
  keep their order. Reading \<open>self.timeseries["occupancy"]\<close> and \<open>["nurse_load"]\<close> goes
  through the \<open>defaultdict\<close>, so both keys exist in the returned \<open>timeseries\<close>.
\<close>

definition calculate_results :: "'g SimulationEngine \<Rightarrow> results" where
  "calculate_results st =
     (let wait_times = List.map_filter wait_time (patient_outcomes st);
          los_times = List.map_filter los (patient_outcomes st);
          bottleneck_summary = foldl summary_step [] (bottleneck_events st);
          bottlenecks = sort_key (\<lambda>b. - impact_score b)
                          (map (bottleneck_of (length (patient_outcomes st))) bottleneck_summary);
          (occupancy, ts1) = dd_get ''occupancy'' (timeseries st);
          (nurse_load, ts2) = dd_get ''nurse_load'' ts1
      in \<lparr>res_metrics =
            \<lparr>total_patients = length (patient_outcomes st),
             avg_wait_time_minutes = (if wait_times \<noteq> [] then mean wait_times else 0),
             median_wait_time_minutes = (if wait_times \<noteq> [] then median wait_times else 0),
             max_wait_time_minutes = (if wait_times \<noteq> [] then py_max wait_times else 0),
             avg_los_minutes = (if los_times \<noteq> [] then mean los_times else 0),
             sla_breaches = length (filter (\<lambda>w. w > 60) wait_times),
             avg_occupancy = (if occupancy \<noteq> [] then mean occupancy else 0),
             peak_occupancy = (if occupancy \<noteq> [] then py_max occupancy else 0),
             avg_nurse_load = (if nurse_load \<noteq> [] then mean nurse_load else 0)\<rparr>,
          res_timeseries = ts2,
          res_bottlenecks = take 5 bottlenecks\<rparr>)"

text \<open>
  \<open>run\<close>: the results, with the engine as the run leaves it and the state the callback
  acted on; or the exception raised, with that state. No value when a loop does not end.
\<close>

definition run ::
  "'g Generator \<Rightarrow> (int \<Rightarrow> 'w \<Rightarrow> 'w) option \<Rightarrow> 'w \<Rightarrow> 'g SimulationEngine
     \<Rightarrow> (py_error \<times> 'w + results \<times> 'g SimulationEngine \<times> 'w) option"
where
  "run G progress_callback w st =
     (case generate_arrivals G st of
        None \<Rightarrow> None
      | Some (Inl e) \<Rightarrow> Some (Inl (e, w))
      | Some (Inr st1) \<Rightarrow>
          (case main_loop G progress_callback
                  \<lparr>engine = st1, last_metric_time = 0, last_progress = 0, world = w\<rparr> of
             None \<Rightarrow> None
           | Some (Inl ew) \<Rightarrow> Some (Inl ew)
           | Some (Inr ls) \<Rightarrow> Some (Inr (calculate_results (engine ls), engine ls, world ls))))"

section \<open>A scripted generator\<close>

text \<open>
  A generator to run the engine on concrete draws: its state is the list of the numbers
  still to be drawn, whatever the seed. Each draw takes the next number and fits it to
  what was asked (a non-negative float, an index into the items, a float in \<open>[0, 1)\<close>,
  an integer in \<open>[low, high)\<close>); when the list is used up the draw is the scale, the
  first item, 0 and \<open>low\<close>.
\<close>

definition scripted_generator :: "real list \<Rightarrow> real list Generator" where
  "scripted_generator tape =
     \<lparr>default_rng = (\<lambda>seed. tape),
      rng_exponential = (\<lambda>scale g.
         if scale < 0 then Inl ValueError
         else (case g of [] \<Rightarrow> Inr (scale, []) | x # xs \<Rightarrow> Inr (\<bar>x\<bar>, xs))),
      rng_choice = (\<lambda>items p g.
         if items = [] \<or> length p \<noteq> length items \<or> sum_list p \<noteq> 1 then Inl ValueError
         else (case g of [] \<Rightarrow> Inr (hd items, [])
                        | x # xs \<Rightarrow> Inr (items ! (nat \<lfloor>\<bar>x\<bar>\<rfloor> mod length items), xs))),
      rng_random = (\<lambda>g. case g of [] \<Rightarrow> (0, []) | x # xs \<Rightarrow> (x - of_int \<lfloor>x\<rfloor>, xs)),
      rng_integers = (\<lambda>low high g.
         case g of [] \<Rightarrow> (low, [])
                 | x # xs \<Rightarrow> (if low < high then low + \<lfloor>x\<rfloor> mod (high - low) else low, xs))\<rparr>"

declare arrivals_loop.simps [code]
declare main_loop.simps [code]
declare replay_loop.simps [code]

section \<open>Job runner: \<open>app/worker.py\<close>\<close>

datatype SimulationStatus = PENDING | RUNNING | COMPLETED | FAILED

record SimulationRun =
  run_id :: int
  run_scenario_id :: int
  status :: SimulationStatus
  started_at :: "datetime option"
  completed_at :: "datetime option"
  progress :: int
  run_metrics :: "metrics option"
  run_timeseries :: "(string \<times> real list) list option"
  run_bottlenecks :: "bottleneck list option"
  error_message :: "py_error option"

record Scenario =
  scenario_id :: int
  parameters :: Parameters

text \<open>
  The database session of the task: the two tables by primary key, and \<open>committed\<close>, the
  state of the task's run row at each \<open>db.commit()\<close>, in order: what is written to the
  run row over time.
\<close>

record session =
  runs :: "(int \<times> SimulationRun) list"
  scenarios :: "(int \<times> Scenario) list"
  committed :: "SimulationRun list"

definition commit :: "int \<Rightarrow> session \<Rightarrow> session" where
  "commit rid db =
     (case map_of (runs db) rid of
        None \<Rightarrow> db
      | Some r \<Rightarrow> db\<lparr>committed := committed db @ [r]\<rparr>)"

definition update_run :: "int \<Rightarrow> (SimulationRun \<Rightarrow> SimulationRun) \<Rightarrow> session \<Rightarrow> session" where
  "update_run rid f db = db\<lparr>runs := AList.map_entry rid f (runs db)\<rparr>"

text \<open>The closure \<open>progress_callback\<close> of the task: \<open>run.progress = progress; db.commit()\<close>.\<close>

definition progress_callback :: "int \<Rightarrow> int \<Rightarrow> session \<Rightarrow> session" where
  "progress_callback rid p db = commit rid (update_run rid (\<lambda>r. r\<lparr>progress := p\<rparr>) db)"

datatype task_result =
    Error_not_found
  | Error_raised py_error
  | Completed int int metrics

text \<open>
  \<open>run_simulation_task\<close>. \<open>t_started\<close> and \<open>t_completed\<close> are what the two calls of
  \<open>datetime.utcnow()\<close> return. The engine is made with the default seed 42.
\<close>

definition run_simulation_task ::
  "'g Generator \<Rightarrow> datetime \<Rightarrow> datetime \<Rightarrow> int \<Rightarrow> int \<Rightarrow> session \<Rightarrow> (task_result \<times> session) option"
where
  "run_simulation_task G t_started t_completed rid sid db =
     (case (map_of (runs db) rid, map_of (scenarios db) sid) of
        (Some run_row, Some scenario) \<Rightarrow>
          let db1 = commit rid (update_run rid (\<lambda>r. r\<lparr>status := RUNNING, started_at := Some t_started\<rparr>) db)
          in (case run G (Some (progress_callback rid)) db1 (SimulationEngine_init G (parameters scenario) 42) of
                None \<Rightarrow> None
              | Some (Inr (res, _, db2)) \<Rightarrow>
                  Some (Completed rid sid (res_metrics res),
                        commit rid (update_run rid
                          (\<lambda>r. r\<lparr>status := COMPLETED, completed_at := Some t_completed, progress := 100,
                                 run_metrics := Some (res_metrics res),
                                 run_timeseries := Some (res_timeseries res),
                                 run_bottlenecks := Some (res_bottlenecks res)\<rparr>) db2))
              | Some (Inl (e, db2)) \<Rightarrow>
                  Some (Error_raised e,
                        commit rid (update_run rid
                          (\<lambda>r. r\<lparr>status := FAILED, error_message := Some e,
                                 completed_at := Some t_completed\<rparr>) db2)))
      | _ \<Rightarrow> Some (Error_not_found, db))"

section \<open>Vocabulary of the engine properties\<close>

text \<open>
  What the engine relies on of \<open>Generator.integers(low, high)\<close>: the value drawn lies in
  \<open>[low, high)\<close>.
\<close>

definition integers_in_range :: "'g Generator \<Rightarrow> bool" where
  "integers_in_range G \<longleftrightarrow>
     (\<forall>low high g. low < high \<longrightarrow>
        low \<le> fst (rng_integers G low high g) \<and> fst (rng_integers G low high g) < high)"

text \<open>A small engine state: patient 1 is being imaged, patient 2 waits for imaging.\<close>

definition sample_patient :: "int \<Rightarrow> SimPatient" where
  "sample_patient i =
     \<lparr>p_id = i, acuity = ''low'', arrival_time = 10, requires_imaging = True, requires_consult = False,
      triage_time = Some 20, bed_assigned_time = Some 20, imaging_start_time = None,
      imaging_end_time = None, discharge_time = None, bed_id = Some i, nurse_id = Some 1\<rparr>"

definition sample_parameters :: Parameters where
  "sample_parameters =
     \<lparr>p_arrival_multiplier = None, p_acuity_mix = None, p_beds_available = Some 2,
      p_nurse_count = None, p_imaging_capacity = None, p_transport_capacity = None\<rparr>"

definition imaging_state :: "real list SimulationEngine" where
  "imaging_state =
     (SimulationEngine_init (scripted_generator [33]) sample_parameters 42)
       \<lparr>patients := [(1, sample_patient 1), (2, sample_patient 2)],
        imaging_queue := [2], imaging_in_use := 2, current_time := 100\<rparr>"

definition imaging_end_event :: SimEvent where
  "imaging_end_event = \<lparr>time = 100, event_type = IMAGING_END, entity_id = 1, data = NoData\<rparr>"

text \<open>
  The states a run passes through: \<open>run_reaches G cb ls ls'\<close> when the main loop,
  started in \<open>ls\<close>, stands in \<open>ls'\<close> after some number of passes.
\<close>

inductive run_reaches ::
  "'g Generator \<Rightarrow> (int \<Rightarrow> 'w \<Rightarrow> 'w) option \<Rightarrow> ('g, 'w) run_state \<Rightarrow> ('g, 'w) run_state \<Rightarrow> bool"
  for G cb ls
where
  start: "run_reaches G cb ls ls"
| pass: "run_reaches G cb ls a \<Longrightarrow> event_queue (engine a) \<noteq> [] \<Longrightarrow> loop_body G cb a = Inr b
           \<Longrightarrow> run_reaches G cb ls b"

text \<open>The run variables \<open>run\<close> starts its loop with.\<close>

definition loop_start :: "'g SimulationEngine \<Rightarrow> 'w \<Rightarrow> ('g, 'w) run_state" where
  "loop_start st w = \<lparr>engine = st, last_metric_time = 0, last_progress = 0, world = w\<rparr>"

text \<open>The fields of the engine that no handler assigns.\<close>

definition untouched :: "'g SimulationEngine \<Rightarrow> 'g SimulationEngine \<Rightarrow> bool" where
  "untouched st st' \<longleftrightarrow>
     params st' = params st \<and> current_time st' = current_time st \<and> timeseries st' = timeseries st
     \<and> transport_queue st' = transport_queue st \<and> transport_in_use st' = transport_in_use st
     \<and> transport_capacity st' = transport_capacity st \<and> imaging_capacity st' = imaging_capacity st"

definition no_transport_record :: "'g SimulationEngine \<Rightarrow> bool" where
  "no_transport_record st \<longleftrightarrow> (\<forall>b \<in> set (bottleneck_events st). constraint b \<noteq> ''transport_capacity'')"

text \<open>
  The relation between the sampled \<open>time\<close> array and \<open>last_metric_time\<close> that the loop
  keeps: counting the initial 0 in, successive sample times are at least 15 apart and
  the last of them is \<open>last_metric_time\<close>.
\<close>

definition samples_spaced :: "('g, 'w) run_state \<Rightarrow> bool" where
  "samples_spaced ls \<longleftrightarrow>
     (case map_of (timeseries (engine ls)) ''time'' of
        None \<Rightarrow> last_metric_time ls = 0
      | Some ts \<Rightarrow> successively (\<lambda>a b. a + 15 \<le> b) (0 # ts) \<and> last (0 # ts) = last_metric_time ls)"

text \<open>The \<open>time\<close> array of the result of a run, if the run returns one.\<close>

definition time_array :: "(py_error \<times> 'w + results \<times> 'g SimulationEngine \<times> 'w) option \<Rightarrow> real list option" where
  "time_array r = (case r of Some (Inr (res, _, _)) \<Rightarrow> map_of (res_timeseries res) ''time'' | _ \<Rightarrow> None)"

text \<open>
  Draws under which a single patient arrives at minute 1435 and needs imaging: triage
  ends at 1440, the imaging request comes at 1455 and imaging ends at 1475.
\<close>

definition late_arrival_generator :: "real list Generator" where
  "late_arrival_generator = scripted_generator [1435, 0, 1 / 10, 9 / 10, 100]"

text \<open>The transport pool at rest, with nothing logged against it.\<close>

definition transport_idle :: "'g SimulationEngine \<Rightarrow> bool" where
  "transport_idle st \<longleftrightarrow> transport_in_use st = 0 \<and> transport_queue st = [] \<and> no_transport_record st"

text \<open>
  Draws under which three patients arrive at minutes 10, 20 and 30 and none needs
  imaging; with two beds the third waits for a bed.
\<close>

definition busy_generator :: "real list Generator" where
  "busy_generator =
     scripted_generator [10, 0, 9 / 10, 9 / 10, 10, 0, 9 / 10, 9 / 10, 10, 0, 9 / 10, 9 / 10, 2000]"

text \<open>
  Vocabulary for the patient outcomes. A patient is \<open>bedded\<close> once a bed was assigned and
  \<open>settled\<close> once, bedded, it carries a discharge stamp before the end of the horizon.
  \<open>later_patient p p'\<close>: \<open>p'\<close> is the same patient at a later moment.
\<close>

definition bedded :: "SimPatient \<Rightarrow> bool" where
  "bedded p \<longleftrightarrow> bed_assigned_time p \<noteq> None"

definition settled :: "SimPatient \<Rightarrow> bool" where
  "settled p \<longleftrightarrow> bed_assigned_time p \<noteq> None \<and> (\<exists>t. discharge_time p = Some t \<and> t < end_time)"

definition later_patient :: "SimPatient \<Rightarrow> SimPatient \<Rightarrow> bool" where
  "later_patient p p' \<longleftrightarrow> p_id p' = p_id p \<and> (bedded p \<longrightarrow> bedded p') \<and> (settled p \<longrightarrow> settled p')"

definition pat_step :: "(int \<times> SimPatient) list \<Rightarrow> (int \<times> SimPatient) list \<Rightarrow> bool" where
  "pat_step ps ps' \<longleftrightarrow> (\<forall>k. rel_option later_patient (map_of ps k) (map_of ps' k))"

text \<open>
  What the run keeps true of a queued event: a discharge lies before the end of the
  horizon and is for a bedded patient; an arrival is for an id no patient has yet.
\<close>

definition event_ok :: "(int \<times> SimPatient) list \<Rightarrow> SimEvent \<Rightarrow> bool" where
  "event_ok ps e \<longleftrightarrow>
     (event_type e = DISCHARGE \<longrightarrow> time e < end_time \<and> (\<exists>p. map_of ps (entity_id e) = Some p \<and> bedded p))
     \<and> (event_type e = ARRIVAL \<longrightarrow> map_of ps (entity_id e) = None)"

definition outcome_ok :: "(int \<times> SimPatient) list \<Rightarrow> outcome \<Rightarrow> bool" where
  "outcome_ok ps oc \<longleftrightarrow> (\<exists>p. map_of ps (o_patient_id oc) = Some p \<and> settled p)"

definition arrival_ids :: "SimEvent list \<Rightarrow> int multiset" where
  "arrival_ids q = image_mset entity_id (filter_mset (\<lambda>e. event_type e = ARRIVAL) (mset q))"

definition outcomes_inv :: "'g SimulationEngine \<Rightarrow> bool" where
  "outcomes_inv st \<longleftrightarrow>
     (\<forall>oc \<in> set (patient_outcomes st). outcome_ok (patients st) oc)
     \<and> (\<forall>e \<in> set (event_queue st). event_ok (patients st) e)
     \<and> (\<forall>x. count (arrival_ids (event_queue st)) x \<le> 1)
     \<and> (\<forall>k p. map_of (patients st) k = Some p \<longrightarrow> p_id p = k)"

text \<open>The change a handler other than the arrival handler makes to patients, queue and outcomes.\<close>

definition grows :: "'g SimulationEngine \<Rightarrow> 'g SimulationEngine \<Rightarrow> bool" where
  "grows st st' \<longleftrightarrow>
     pat_step (patients st) (patients st')
     \<and> arrival_ids (event_queue st') = arrival_ids (event_queue st)
     \<and> (\<forall>e \<in> set (event_queue st'). e \<in> set (event_queue st) \<or> event_ok (patients st') e)
     \<and> (\<forall>oc \<in> set (patient_outcomes st'). oc \<in> set (patient_outcomes st) \<or> outcome_ok (patients st') oc)"

text \<open>
  What holds of the engine while \<open>_generate_arrivals\<close> runs: nothing but arrivals is
  queued, for ids up to \<open>patient_counter\<close>, each id once.
\<close>

definition arrivals_only :: "'g SimulationEngine \<Rightarrow> bool" where
  "arrivals_only st \<longleftrightarrow>
     patients st = [] \<and> patient_outcomes st = []
     \<and> (\<forall>e \<in> set (event_queue st). event_type e = ARRIVAL \<and> entity_id e \<le> patient_counter st)
     \<and> (\<forall>x. count (arrival_ids (event_queue st)) x \<le> 1)"

text \<open>
  Draws under which three patients arrive at minutes 10, 20 and 30 and a fourth at
  minute 1400, too late to be discharged within the horizon.
\<close>

definition horizon_generator :: "real list Generator" where
  "horizon_generator =
     scripted_generator
       [10, 0, 9 / 10, 9 / 10, 10, 0, 9 / 10, 9 / 10, 10, 0, 9 / 10, 9 / 10, 1370, 0, 9 / 10, 9 / 10, 2000]"

text \<open>The keys of \<open>self.beds\<close>, in the order of the dictionary, and the number of beds asked for.\<close>

definition bed_ids :: "'g SimulationEngine \<Rightarrow> int list" where
  "bed_ids st = map fst (beds st)"

definition num_beds :: "Parameters \<Rightarrow> int" where
  "num_beds ps = (case p_beds_available ps of None \<Rightarrow> 24 | Some n \<Rightarrow> n)"

text \<open>
  \<open>loop_passes n\<close>: the first \<open>n\<close> passes of the main loop, with the events they pop in
  order and the run variables after them; no value when the loop ends or raises before.
\<close>

fun loop_passes ::
  "nat \<Rightarrow> 'g Generator \<Rightarrow> (int \<Rightarrow> 'w \<Rightarrow> 'w) option \<Rightarrow> ('g, 'w) run_state
     \<Rightarrow> (SimEvent list \<times> ('g, 'w) run_state) option"
where
  "loop_passes 0 G cb ls = Some ([], ls)"
| "loop_passes (Suc n) G cb ls =
     (case heappop (event_queue (engine ls)) of
        Inl e \<Rightarrow> None
      | Inr (event, queue) \<Rightarrow>
          (case loop_body G cb ls of
             Inl e \<Rightarrow> None
           | Inr ls' \<Rightarrow> map_option (\<lambda>(events, l). (event # events, l)) (loop_passes n G cb ls')))"

text \<open>
  The sampling rule on the times of the processed events, in order: an event is sampled
  when its time is 15 minutes or more after the previous sample, or after \<open>previous\<close> for
  the first one (0 in a run).
\<close>

fun sample_times :: "real \<Rightarrow> real list \<Rightarrow> real list" where
  "sample_times previous [] = []"
| "sample_times previous (t # ts) =
     (if t - previous \<ge> 15 then t # sample_times t ts else sample_times previous ts)"

text \<open>The \<open>time\<close> array of the engine; the key is missing until the first sample.\<close>

definition time_list :: "'g SimulationEngine \<Rightarrow> real list" where
  "time_list st = (case map_of (timeseries st) ''time'' of None \<Rightarrow> [] | Some ts \<Rightarrow> ts)"
section \<open>Vocabulary of the job runner properties\<close>

text \<open>
  What a task leaves behind: the progress values of the run row at its successive
  commits, the status at the last commit, and the status of the row in the session.
\<close>

definition progress_written :: "(task_result \<times> session) option \<Rightarrow> int list option" where
  "progress_written r = (case r of None \<Rightarrow> None | Some (_, db) \<Rightarrow> Some (map progress (committed db)))"

definition status_written :: "(task_result \<times> session) option \<Rightarrow> SimulationStatus list option" where
  "status_written r = (case r of None \<Rightarrow> None | Some (_, db) \<Rightarrow> Some (map status (committed db)))"

definition row_status :: "int \<Rightarrow> (task_result \<times> session) option \<Rightarrow> SimulationStatus option" where
  "row_status rid r = (case r of None \<Rightarrow> None | Some (_, db) \<Rightarrow> map_option status (map_of (runs db) rid))"

text \<open>A session holding the pending run 1 of scenario 1, as the API creates it.\<close>

definition pending_run :: SimulationRun where
  "pending_run =
     \<lparr>run_id = 1, run_scenario_id = 1, status = PENDING, started_at = None, completed_at = None,
      progress = 0, run_metrics = None, run_timeseries = None, run_bottlenecks = None,
      error_message = None\<rparr>"

definition pending_session :: session where
  "pending_session =
     \<lparr>runs = [(1, pending_run)],
      scenarios = [(1, \<lparr>scenario_id = 1, parameters = sample_parameters\<rparr>)],
      committed = []\<rparr>"

section \<open>Vocabulary of the replay properties\<close>

text \<open>An event of unit 1 stamped exactly one minute after the start of a stream at 0.\<close>

definition boundary_event :: Event where
  "boundary_event =
     \<lparr>ev_id = 7, ev_patient_id = Some 3, ev_event_type = ''arrival'',
      ev_timestamp = timedelta_seconds 60, ev_unit_id = Some 1, ev_bed_id = None, ev_data = []\<rparr>"

definition boundary_db :: database where
  "boundary_db = \<lparr>db_beds = [], db_events = [boundary_event]\<rparr>"

definition empty_db :: database where
  "empty_db = \<lparr>db_beds = [], db_events = []\<rparr>"

text \<open>The delta of a tick over a unit with no bed and no event in the window.\<close>

definition idle_delta :: replay_delta where
  "idle_delta =
     \<lparr>bed_changes = [], event_markers = [],
      delta_metrics =
        \<lparr>occupancy_percent = 0, average_los_hours = 13 / 2, average_time_to_bed_minutes = 35,
         rm_sla_breaches = 0, imaging_queue_length = 0, ed_waiting_count = 0,
         nurse_load_average = 0\<rparr>\<rparr>"

section \<open>Properties of the replay streamer\<close>

lemma collect_events_raises:
  "events \<noteq> [] \<Longrightarrow> collect_events events bcs ems = Inl AttributeError"
  by (cases events) (simp_all add: marker_of_def str_value_def)

text \<open>
  Claim C3 on the code. \<open>get_replay_delta\<close> reads \<open>event.event_type.value\<close>, and the
  column holds a plain string: the delta of a tick raises \<open>AttributeError\<close> exactly when
  the window of the tick (the closed minute that ends at the cursor) holds an event of
  the unit. Such a tick is never sent.
\<close>

theorem replay_event_in_window_raises:
  "get_replay_delta db unit_id t = Inl AttributeError
     \<longleftrightarrow> (\<exists>e \<in> set (db_events db). in_replay_window unit_id t e)"
proof (cases "filter (in_replay_window unit_id t) (db_events db) = []")
  case True
  then have "\<not> (\<exists>e \<in> set (db_events db). in_replay_window unit_id t e)"
    by (simp add: filter_empty_conv)
  then show ?thesis using True by (simp add: get_replay_delta_def Let_def)
next
  case False
  then have ex: "\<exists>e \<in> set (db_events db). in_replay_window unit_id t e"
    by (simp add: filter_empty_conv)
  have "sort_key ev_timestamp (filter (in_replay_window unit_id t) (db_events db)) \<noteq> []"
    using False by (metis length_sort list.size(3) length_0_conv)
  then show ?thesis using ex by (simp add: get_replay_delta_def Let_def collect_events_raises)
qed

text \<open>
  A stream from 0 at speed 1 over a log that holds one arrival of unit 1 stamped at the
  first minute: the tick at 0 is sent, the tick at the first minute raises, and the
  stream ends with an error frame in place of the event marker.
\<close>

theorem replay_event_in_window_raises_witness:
  "in_replay_window 1 (Naive (timedelta_seconds 60)) boundary_event
   \<and> boundary_event \<in> set (db_events boundary_db)
   \<and> get_replay_delta boundary_db 1 (Naive (timedelta_seconds 60)) = Inl AttributeError
   \<and> replay_websocket boundary_db 1 (Some (GoodTime (Naive 0))) 1 []
     = Inr (Some [Send (Tick (Naive 0) idle_delta), Sleep 1,
                  Send (ErrorFrame AttributeError), Send Complete])"
proof -
  have w: "in_replay_window 1 (Naive (timedelta_seconds 60)) boundary_event"
    by (simp add: in_replay_window_def boundary_event_def timedelta_minutes_def timedelta_seconds_def)
  have m: "boundary_event \<in> set (db_events boundary_db)"
    by (simp add: boundary_db_def)
  have r: "get_replay_delta boundary_db 1 (Naive (timedelta_seconds 60)) = Inl AttributeError"
    using replay_event_in_window_raises[of boundary_db 1 "Naive (timedelta_seconds 60)"] w m by blast
  have n: "\<not> in_replay_window 1 (Naive 0) boundary_event"
    by (simp add: in_replay_window_def boundary_event_def timedelta_minutes_def timedelta_seconds_def)
  have d0: "get_replay_delta boundary_db 1 (Naive 0) = Inr idle_delta"
    using n by (simp add: get_replay_delta_def boundary_db_def idle_delta_def Let_def)
  have s: "replay_websocket boundary_db 1 (Some (GoodTime (Naive 0))) 1 []
     = Inr (Some [Send (Tick (Naive 0) idle_delta), Sleep 1,
                  Send (ErrorFrame AttributeError), Send Complete])"
    using r d0
    by (simp add: replay_websocket_def replay_loop.simps replay_step_def tick_step_def Let_def
          timedelta_hours_def timedelta_minutes_def timedelta_seconds_def)
  show ?thesis using w m r s by blast
qed

text \<open>
  Claim C8 on the code: the \<open>speed\<close> control message stores its value unchecked, so after
  \<open>{"action": "speed", "value": 0}\<close> the speed is 0, outside \<open>[0.1, 10]\<close>, and the
  sleep of the next tick divides by zero: the stream sends that tick, an error frame
  and ends.
\<close>

theorem replay_speed_zero_division:
  "apply_message (Message (Some ''speed'') None (Some (NumValue 0)))
       \<lparr>rp_current_time = default_start_time, rp_is_playing = True, rp_speed = 1\<rparr>
     = Inr (Some \<lparr>rp_current_time = default_start_time, rp_is_playing = True, rp_speed = 0\<rparr>)
   \<and> get_replay_delta empty_db 1 default_start_time = Inr idle_delta
   \<and> replay_websocket empty_db 1 None 1 [Received (Message (Some ''speed'') None (Some (NumValue 0)))]
     = Inr (Some [Send (Tick default_start_time idle_delta),
                  Send (ErrorFrame ZeroDivisionError), Send Complete])"
proof -
  have d: "get_replay_delta empty_db 1 default_start_time = Inr idle_delta"
    by (simp add: get_replay_delta_def empty_db_def idle_delta_def Let_def)
  show ?thesis using d
    by (simp add: replay_websocket_def replay_loop.simps replay_step_def apply_message_def tick_step_def
          default_start_time_def timedelta_hours_def timedelta_minutes_def timedelta_seconds_def Let_def)
qed

section \<open>Properties of the engine\<close>

lemma scripted_integers_in_range: "integers_in_range (scripted_generator tape)"
proof -
  have "low + a mod (high - low) < high" "low \<le> low + a mod (high - low)" if "low < high" for low high a :: int
    using that pos_mod_bound[of "high - low" a] pos_mod_sign[of "high - low" a] by linarith+
  then show ?thesis
    unfolding integers_in_range_def scripted_generator_def
    by (auto split: list.splits)
qed

text \<open>
  Claim C5. When \<open>imaging_end\<close> is handled and a patient waits for imaging, the head of
  the imaging queue is taken off it, its \<open>imaging_start_time\<close> is stamped with the time
  of the event (the current time of the run), and its \<open>imaging_end\<close> is pushed on the
  event queue at that time plus the integer drawn by \<open>integers(20, 60)\<close>, which lies in
  \<open>{20..59}\<close>.
\<close>

theorem imaging_end_starts_head_waiter:
  assumes "integers_in_range G"
    and "map_of (patients st) (entity_id event) = Some patient"
    and "imaging_queue st = next_patient_id # waiting"
    and "map_of (patients st) next_patient_id = Some next_patient"
  shows "\<exists>st' d g'. handle_imaging_end G event st = Inr st'
           \<and> rng_integers G 20 60 (rng st) = (d, g') \<and> 20 \<le> d \<and> d \<le> 59
           \<and> imaging_queue st' = waiting
           \<and> (\<exists>p'. map_of (patients st') next_patient_id = Some p' \<and> imaging_start_time p' = Some (time event))
           \<and> event_queue st' =
               heappush (event_queue st)
                 \<lparr>time = time event + of_int d, event_type = IMAGING_END, entity_id = next_patient_id, data = NoData\<rparr>"
proof -
  obtain d g' where dg: "rng_integers G 20 60 (rng st) = (d, g')" by (cases "rng_integers G 20 60 (rng st)")
  have "20 \<le> d \<and> d < 60"
    using assms(1)[unfolded integers_in_range_def, rule_format, of 20 60 "rng st"] dg by simp
  then show ?thesis
    using assms(2-4) dg
    by (auto simp: handle_imaging_end_def schedule_event_def Let_def update_conv')
qed

text \<open>The statement at \<open>imaging_state\<close>, where patient 2 waits and the draw is 53.\<close>

theorem imaging_end_starts_head_waiter_witness:
  "integers_in_range (scripted_generator [33])
   \<and> map_of (patients imaging_state) (entity_id imaging_end_event) = Some (sample_patient 1)
   \<and> imaging_queue imaging_state = [2]
   \<and> map_of (patients imaging_state) 2 = Some (sample_patient 2)
   \<and> (\<exists>st'. handle_imaging_end (scripted_generator [33]) imaging_end_event imaging_state = Inr st'
        \<and> imaging_queue st' = []
        \<and> map_option imaging_start_time (map_of (patients st') 2) = Some (Some 100)
        \<and> event_queue st' = [\<lparr>time = 153, event_type = IMAGING_END, entity_id = 2, data = NoData\<rparr>])"
proof -
  have h1: "integers_in_range (scripted_generator [33])" by (rule scripted_integers_in_range)
  have h2: "map_of (patients imaging_state) (entity_id imaging_end_event) = Some (sample_patient 1)"
    by (simp add: imaging_state_def imaging_end_event_def)
  have h3: "imaging_queue imaging_state = [2]" by (simp add: imaging_state_def)
  have h4: "map_of (patients imaging_state) 2 = Some (sample_patient 2)" by (simp add: imaging_state_def)
  have q: "event_queue imaging_state = []" "rng imaging_state = [33]"
    by (simp_all add: imaging_state_def SimulationEngine_init_def initialize_resources_def Let_def scripted_generator_def)
  have i: "rng_integers (scripted_generator [33]) 20 60 [33] = (53, [])"
    by (simp add: scripted_generator_def)
  have hp: "heappush [] \<lparr>time = 153, event_type = IMAGING_END, entity_id = 2, data = NoData\<rparr>
     = [\<lparr>time = 153, event_type = IMAGING_END, entity_id = 2, data = NoData\<rparr>]"
    by (simp add: heappush_def siftdown_def siftdown_loop.simps)
  from imaging_end_starts_head_waiter[OF h1 h2 h3 h4]
  show ?thesis using h1 h2 h3 h4 q i hp
    by (auto simp: imaging_end_event_def)
qed

lemma assign_nurse_beds [simp]: "beds (snd (assign_nurse pk p t st)) = beds st"
  by (simp add: assign_nurse_def Let_def split: option.splits prod.splits)

lemma assign_nurse_fst: "\<exists>n. fst (assign_nurse pk p t st) = p\<lparr>nurse_id := n\<rparr>"
  apply (simp add: assign_nurse_def Let_def split: option.splits prod.splits)
  by (metis SimPatient.surjective SimPatient.update_convs(12))

lemma assign_nurse_patient:
  "map_of (patients st) pk = Some p \<Longrightarrow>
     map_of (patients (snd (assign_nurse pk p t st))) pk = Some (fst (assign_nurse pk p t st))"
  by (simp add: assign_nurse_def Let_def update_conv' split: option.splits prod.splits)

lemma beds_schedule_event [simp]: "beds (schedule_event e st) = beds st"
  by (simp add: schedule_event_def)

lemma patients_schedule_event [simp]: "patients (schedule_event e st) = patients st"
  by (simp add: schedule_event_def)

lemma assign_bed_beds:
  "beds (assign_bed G pk p bk b t st) = AList.update bk (b\<lparr>is_occupied := True, patient_id := Some (p_id p)\<rparr>) (beds st)"
  by (simp add: assign_bed_def Let_def case_prod_unfold)

lemma assign_bed_patient:
  "\<exists>p'. map_of (patients (assign_bed G pk p bk b t st)) pk = Some p'
        \<and> bed_id p' = Some (b_id b) \<and> bed_assigned_time p' = Some t"
proof -
  let ?p1 = "p\<lparr>bed_id := Some (b_id b), bed_assigned_time := Some t\<rparr>"
  let ?st1 = "st\<lparr>beds := AList.update bk (b\<lparr>is_occupied := True, patient_id := Some (p_id p)\<rparr>) (beds st),
                   patients := AList.update pk ?p1 (patients st)\<rparr>"
  have 1: "map_of (patients ?st1) pk = Some ?p1" by (simp add: update_conv')
  obtain n where n: "fst (assign_nurse pk ?p1 t ?st1) = ?p1\<lparr>nurse_id := n\<rparr>"
    using assign_nurse_fst by blast
  show ?thesis
    using assign_nurse_patient[OF 1, of t] n
    by (simp add: assign_bed_def Let_def case_prod_unfold)
qed

lemma find_first_sorted:
  assumes "sorted_wrt (<) (map fst xs)" and "(k, v) \<in> set xs" and "P (k, v)"
    and "\<forall>(k', v') \<in> set xs. k' < k \<longrightarrow> \<not> P (k', v')"
  shows "find P xs = Some (k, v)"
  using assms
proof (induction xs)
  case Nil
  then show ?case by simp
next
  case (Cons x xs)
  show ?case
  proof (cases "x = (k, v)")
    case True
    then show ?thesis using Cons.prems by simp
  next
    case False
    then have in_xs: "(k, v) \<in> set xs" using Cons.prems by simp
    then have "fst x < k" using Cons.prems(1) by force
    then have "\<not> P x" using Cons.prems(4) by (cases x) auto
    moreover have "find P xs = Some (k, v)"
      using Cons.IH Cons.prems in_xs by auto
    ultimately show ?thesis by simp
  qed
qed

lemma main_loop_reaches:
  "main_loop G cb ls = Some (Inr ls') \<Longrightarrow> run_reaches G cb ls ls' \<and> event_queue (engine ls') = []"
proof -
  have "main_loop G cb ls = Some r \<Longrightarrow>
          (\<forall>ls0 ls'. r = Inr ls' \<longrightarrow> run_reaches G cb ls0 ls \<longrightarrow> run_reaches G cb ls0 ls' \<and> event_queue (engine ls') = [])" for r
  proof (induction rule: main_loop.raw_induct[rotated 1, consumes 1])
    case (1 main_loop' G cb ls r)
    show ?case
    proof (intro allI impI)
      fix ls0 ls'
      assume r: "r = Inr ls'" and reach: "run_reaches G cb ls0 ls"
      show "run_reaches G cb ls0 ls' \<and> event_queue (engine ls') = []"
      proof (cases "event_queue (engine ls) \<noteq> []")
        case False
        then show ?thesis using 1(2) r reach by simp
      next
        case True
        then obtain a where a: "loop_body G cb ls = Inr a" and rec: "main_loop' G cb a = Some r"
          using 1(2) r by (auto split: sum.splits)
        have "run_reaches G cb ls0 a" using reach True a by (rule run_reaches.pass)
        then show ?thesis using 1(1)[OF rec] r by blast
      qed
    qed
  qed
  then show "main_loop G cb ls = Some (Inr ls') \<Longrightarrow> run_reaches G cb ls ls' \<and> event_queue (engine ls') = []"
    using run_reaches.start by blast
qed

lemma run_reaches_invariant:
  assumes "run_reaches G cb ls ls'" and "I ls"
    and "\<And>a b. I a \<Longrightarrow> event_queue (engine a) \<noteq> [] \<Longrightarrow> loop_body G cb a = Inr b \<Longrightarrow> I b"
  shows "I ls'"
  using assms(1) by (induction rule: run_reaches.induct) (auto intro: assms)

lemma arrivals_loop_invariant:
  assumes "arrivals_loop G rate mix ca st = Some (Inr st')" and "I st"
    and "\<And>ca a b. I a \<Longrightarrow> arrival_step G rate mix ca a = Inr (Inl b) \<Longrightarrow> I b"
    and "\<And>ca ca' a b. I a \<Longrightarrow> arrival_step G rate mix ca a = Inr (Inr (ca', b)) \<Longrightarrow> I b"
  shows "I st'"
proof -
  have "arrivals_loop G rate mix ca st = Some r \<Longrightarrow>
          (\<forall>st'. r = Inr st' \<longrightarrow> I st
             \<longrightarrow> (\<forall>ca a b. I a \<longrightarrow> arrival_step G rate mix ca a = Inr (Inl b) \<longrightarrow> I b)
             \<longrightarrow> (\<forall>ca ca' a b. I a \<longrightarrow> arrival_step G rate mix ca a = Inr (Inr (ca', b)) \<longrightarrow> I b)
             \<longrightarrow> I st')" for r
  proof (induction rule: arrivals_loop.raw_induct[rotated 1, consumes 1])
    case (1 loop' G rate mix ca st r)
    show ?case
    proof (intro allI impI)
      fix st'
      assume r: "r = Inr st'" and i: "I st"
        and s1: "\<forall>ca a b. I a \<longrightarrow> arrival_step G rate mix ca a = Inr (Inl b) \<longrightarrow> I b"
        and s2: "\<forall>ca ca' a b. I a \<longrightarrow> arrival_step G rate mix ca a = Inr (Inr (ca', b)) \<longrightarrow> I b"
      show "I st'"
      proof (cases "ca < end_time")
        case False
        then show ?thesis using 1(2) r i by simp
      next
        case True
        then consider (brk) "arrival_step G rate mix ca st = Inr (Inl st')"
          | (go) ca' a where "arrival_step G rate mix ca st = Inr (Inr (ca', a))" "loop' G rate mix ca' a = Some r"
          using 1(2) r by (auto split: sum.splits prod.splits)
        then show ?thesis
        proof cases
          case brk
          then show ?thesis using s1 i by blast
        next
          case go
          have "I a" using s2 i go(1) by blast
          then show ?thesis using 1(1)[OF go(2)] r s1 s2 by blast
        qed
      qed
    qed
  qed
  then show ?thesis using assms by blast
qed

lemma untouched_refl [simp]: "untouched st st"
  by (simp add: untouched_def)

lemma untouched_trans: "untouched a b \<Longrightarrow> untouched b c \<Longrightarrow> untouched a c"
  by (simp add: untouched_def)

lemma untouched_schedule_event [simp]: "untouched st (schedule_event e st)"
  by (simp add: untouched_def schedule_event_def)

lemma untouched_assign_nurse [simp]: "untouched st (snd (assign_nurse pk p t st))"
  by (simp add: untouched_def assign_nurse_def Let_def split: option.splits prod.splits)

lemma untouched_assign_bed [simp]: "untouched st (assign_bed G pk p bk b t st)"
proof -
  let ?st1 = "st\<lparr>beds := AList.update bk (b\<lparr>is_occupied := True, patient_id := Some (p_id p)\<rparr>) (beds st),
                   patients := AList.update pk (p\<lparr>bed_id := Some (b_id b), bed_assigned_time := Some t\<rparr>) (patients st)\<rparr>"
  have 1: "untouched st ?st1" by (simp add: untouched_def)
  have 2: "untouched ?st1 (snd (assign_nurse pk (p\<lparr>bed_id := Some (b_id b), bed_assigned_time := Some t\<rparr>) t ?st1))"
    by simp
  have 3: "untouched st (snd (assign_nurse pk (p\<lparr>bed_id := Some (b_id b), bed_assigned_time := Some t\<rparr>) t ?st1))"
    using untouched_trans[OF 1 2] .
  show ?thesis
    using 3 by (simp add: assign_bed_def Let_def case_prod_unfold untouched_def schedule_event_def)
qed

lemma untouched_request_bed: "request_bed G pid t st = Inr st' \<Longrightarrow> untouched st st'"
  by (auto simp: request_bed_def Let_def split: option.splits) (simp add: untouched_def)

lemma untouched_handle_arrival: "handle_arrival G e st = Inr st' \<Longrightarrow> untouched st st'"
  by (auto simp: handle_arrival_def Let_def case_prod_unfold untouched_def schedule_event_def split: event_data.splits)

lemma untouched_handle_triage_end: "handle_triage_end G e st = Inr st' \<Longrightarrow> untouched st st'"
  by (auto simp: handle_triage_end_def Let_def split: option.splits dest!: untouched_request_bed)
     (simp add: untouched_def)

lemma untouched_handle_imaging_request: "handle_imaging_request G e st = Inr st' \<Longrightarrow> untouched st st'"
  by (auto simp: handle_imaging_request_def Let_def case_prod_unfold untouched_def schedule_event_def
      split: option.splits if_splits)

lemma untouched_handle_imaging_end: "handle_imaging_end G e st = Inr st' \<Longrightarrow> untouched st st'"
  by (auto simp: handle_imaging_end_def Let_def case_prod_unfold untouched_def schedule_event_def
      split: option.splits list.splits)

lemma untouched_free_bed: "free_bed G e p st = Inr st' \<Longrightarrow> untouched st st'"
  by (auto simp: free_bed_def Let_def case_prod_unfold untouched_def schedule_event_def
      split: option.splits if_splits)

lemma untouched_free_nurse: "free_nurse p st = Inr st' \<Longrightarrow> untouched st st'"
  by (auto simp: free_nurse_def Let_def untouched_def split: option.splits if_splits)

lemma untouched_handle_discharge: "handle_discharge G e st = Inr st' \<Longrightarrow> untouched st st'"
  by (auto simp: handle_discharge_def Let_def split: option.splits sum.splits
        dest!: untouched_free_bed untouched_free_nurse)
     (simp add: untouched_def)

lemma untouched_handle_cleaning_end: "handle_cleaning_end G e st = Inr st' \<Longrightarrow> untouched st st'"
proof -
  have "untouched st (assign_bed G pk p bk b t (st\<lparr>beds := bs, bed_queue := q\<rparr>))" for pk p bk b t bs q
    using untouched_trans[OF _ untouched_assign_bed, of st "st\<lparr>beds := bs, bed_queue := q\<rparr>"]
    by (simp add: untouched_def)
  then show "handle_cleaning_end G e st = Inr st' \<Longrightarrow> untouched st st'"
    by (auto simp: handle_cleaning_end_def Let_def split: option.splits list.splits event_data.splits)
       (simp add: untouched_def)
qed

lemma untouched_process_event: "process_event G e st = Inr st' \<Longrightarrow> untouched st st'"
  by (auto simp: process_event_def split: SimEventType.splits
      dest: untouched_handle_arrival untouched_handle_triage_end untouched_handle_imaging_request
            untouched_handle_imaging_end untouched_handle_discharge untouched_handle_cleaning_end)

lemma map_of_dd_append:
  "map_of (dd_append k x d) k' = (if k' = k then Some (fst (dd_get k d) @ [x]) else map_of d k')"
  by (simp add: dd_append_def update_conv')

lemma map_of_dd_get:
  "map_of (snd (dd_get k d)) k' = (if k' = k \<and> map_of d k = None then Some [] else map_of d k')"
  by (auto simp: dd_get_def update_conv' split: option.splits)

lemma fst_dd_get: "fst (dd_get k d) = (case map_of d k of None \<Rightarrow> [] | Some v \<Rightarrow> v)"
  by (simp add: dd_get_def split: option.splits)

lemma collect_metrics_time:
  "map_of (timeseries (collect_metrics st)) ''time''
     = Some ((case map_of (timeseries st) ''time'' of None \<Rightarrow> [] | Some v \<Rightarrow> v) @ [current_time st])"
  by (simp add: collect_metrics_def Let_def map_of_dd_append fst_dd_get)

lemma successively_snoc:
  "successively P (xs @ [y]) \<longleftrightarrow> successively P xs \<and> (xs \<noteq> [] \<longrightarrow> P (last xs) y)"
  by (auto simp: successively_append_iff)

lemma successively_Cons_snoc:
  "successively P (x # xs @ [y]) \<longleftrightarrow> successively P (x # xs) \<and> P (last (x # xs)) y"
  using successively_snoc[of P "x # xs" y] by simp

lemma engine_report_progress [simp]:
  "engine (report_progress cb ls) = engine ls" "last_metric_time (report_progress cb ls) = last_metric_time ls"
  by (simp_all add: report_progress_def Let_def split: option.splits)

lemma samples_spaced_loop_body:
  assumes "samples_spaced ls" and "loop_body G cb ls = Inr ls'"
  shows "samples_spaced ls'"
proof -
  from assms(2) obtain ev q st where
    pe: "process_event G ev ((engine ls)\<lparr>event_queue := q, current_time := time ev\<rparr>) = Inr st"
    and ls': "ls' = report_progress cb
                (if current_time st - last_metric_time ls \<ge> metric_interval
                 then ls\<lparr>engine := collect_metrics st, last_metric_time := current_time st\<rparr>
                 else ls\<lparr>engine := st\<rparr>)"
    by (auto simp: loop_body_def split: sum.splits prod.splits)
  have u: "timeseries st = timeseries (engine ls)"
    using untouched_process_event[OF pe] by (simp add: untouched_def)
  show ?thesis
  proof (cases "current_time st - last_metric_time ls \<ge> metric_interval")
    case False
    then show ?thesis using assms(1) u by (auto simp add: ls' samples_spaced_def split: option.splits)
  next
    case True
    then have g: "last_metric_time ls + 15 \<le> current_time st" by (simp add: metric_interval_def)
    define old where "old = (case map_of (timeseries (engine ls)) ''time'' of None \<Rightarrow> [] | Some v \<Rightarrow> v)"
    have o: "successively (\<lambda>a b. a + 15 \<le> b) (0 # old)" "last (0 # old) = last_metric_time ls"
      using assms(1) by (auto simp: samples_spaced_def old_def split: option.splits)
    have n: "map_of (timeseries (collect_metrics st)) ''time'' = Some (old @ [current_time st])"
      by (simp add: collect_metrics_time u old_def)
    have 1: "successively (\<lambda>a b. a + 15 \<le> b) (0 # old @ [current_time st])"
      unfolding successively_Cons_snoc using o g by simp
    have 2: "last (0 # old @ [current_time st]) = current_time st" by simp
    show ?thesis
      using True n 1 2 by (simp add: ls' samples_spaced_def del: last.simps successively.simps)
  qed
qed

lemma untouched_arrival_step:
  "arrival_step G rate mix ca st = Inr (Inl st') \<Longrightarrow> untouched st st'"
  "arrival_step G rate mix ca st = Inr (Inr (ca', st')) \<Longrightarrow> untouched st st'"
  by (auto simp: arrival_step_def Let_def case_prod_unfold untouched_def schedule_event_def
      split: if_splits sum.splits)

lemma untouched_generate_arrivals:
  assumes "generate_arrivals G st = Some (Inr st')"
  shows "untouched st st'"
proof -
  let ?rate = "125 / 10 * (case p_arrival_multiplier (params st) of None \<Rightarrow> 1 | Some m \<Rightarrow> m)"
  let ?mix = "(case p_acuity_mix (params st) of None \<Rightarrow> default_acuity_mix | Some d \<Rightarrow> d)"
  have "arrivals_loop G ?rate ?mix 0 st = Some (Inr st')"
    using assms by (simp add: generate_arrivals_def Let_def)
  then show ?thesis
    by (rule arrivals_loop_invariant[where I = "untouched st"])
       (auto dest: untouched_arrival_step intro: untouched_trans)
qed

lemma init_fields:
  "timeseries (SimulationEngine_init G p seed) = []"
  "transport_queue (SimulationEngine_init G p seed) = []"
  "transport_in_use (SimulationEngine_init G p seed) = 0"
  "bottleneck_events (SimulationEngine_init G p seed) = []"
  "patient_outcomes (SimulationEngine_init G p seed) = []"
  "event_queue (SimulationEngine_init G p seed) = []"
  "patients (SimulationEngine_init G p seed) = []"
  "params (SimulationEngine_init G p seed) = p"
  by (simp_all add: SimulationEngine_init_def initialize_resources_def Let_def)

lemma run_cases:
  assumes "run G cb w st = Some (Inr (res, st', w'))"
  obtains st1 ls where "generate_arrivals G st = Some (Inr st1)"
    and "main_loop G cb (loop_start st1 w) = Some (Inr ls)"
    and "res = calculate_results (engine ls)" and "st' = engine ls" and "w' = world ls"
  using assms by (auto simp: run_def loop_start_def split: option.splits sum.splits)

lemma res_timeseries_time:
  "map_of (res_timeseries (calculate_results st)) ''time'' = map_of (timeseries st) ''time''"
  by (simp add: calculate_results_def Let_def case_prod_unfold map_of_dd_get)

lemma successively_gap_nth:
  "successively (\<lambda>a b. a + 15 \<le> b) xs \<Longrightarrow> Suc i < length xs \<Longrightarrow> xs ! i + 15 \<le> (xs ! Suc i :: real)"
  by (rule successively_nth)

lemma successively_gap_sorted:
  assumes "successively (\<lambda>a b. a + 15 \<le> b) (xs :: real list)"
  shows "sorted_wrt (<) xs"
proof -
  have "successively (<) xs"
    by (rule successively_mono[OF assms]) auto
  then show ?thesis by (simp add: successively_conv_sorted_wrt)
qed

lemma ntr_schedule_event [simp]: "no_transport_record (schedule_event e st) = no_transport_record st"
  by (simp add: no_transport_record_def schedule_event_def)

lemma ntr_assign_nurse: "no_transport_record st \<Longrightarrow> no_transport_record (snd (assign_nurse pk p t st))"
  by (auto simp: no_transport_record_def assign_nurse_def Let_def split: option.splits prod.splits)

lemma ntr_assign_bed: "no_transport_record st \<Longrightarrow> no_transport_record (assign_bed G pk p bk b t st)"
proof -
  assume a: "no_transport_record st"
  let ?p1 = "p\<lparr>bed_id := Some (b_id b), bed_assigned_time := Some t\<rparr>"
  let ?st1 = "st\<lparr>beds := AList.update bk (b\<lparr>is_occupied := True, patient_id := Some (p_id p)\<rparr>) (beds st),
                   patients := AList.update pk ?p1 (patients st)\<rparr>"
  have "no_transport_record ?st1" using a by (simp add: no_transport_record_def)
  then have "no_transport_record (snd (assign_nurse pk ?p1 t ?st1))" by (rule ntr_assign_nurse)
  moreover have "bottleneck_events (assign_bed G pk p bk b t st) = bottleneck_events (snd (assign_nurse pk ?p1 t ?st1))"
    by (simp add: assign_bed_def Let_def case_prod_unfold schedule_event_def)
  ultimately show ?thesis
    by (simp add: no_transport_record_def)
qed

lemma ntr_request_bed: "request_bed G pid t st = Inr st' \<Longrightarrow> no_transport_record st \<Longrightarrow> no_transport_record st'"
  by (auto simp: request_bed_def Let_def ntr_assign_bed split: option.splits) (simp add: no_transport_record_def)

lemma ntr_handle_arrival: "handle_arrival G e st = Inr st' \<Longrightarrow> no_transport_record st \<Longrightarrow> no_transport_record st'"
  by (auto simp: handle_arrival_def Let_def case_prod_unfold split: event_data.splits)
     (simp add: no_transport_record_def)

lemma ntr_handle_triage_end: "handle_triage_end G e st = Inr st' \<Longrightarrow> no_transport_record st \<Longrightarrow> no_transport_record st'"
proof -
  assume h: "handle_triage_end G e st = Inr st'" and a: "no_transport_record st"
  from h obtain p where r: "request_bed G (p_id (p\<lparr>triage_time := Some (time e)\<rparr>)) (time e)
        (st\<lparr>patients := AList.update (entity_id e) (p\<lparr>triage_time := Some (time e)\<rparr>) (patients st)\<rparr>) = Inr st'"
    by (auto simp: handle_triage_end_def Let_def split: option.splits)
  have "no_transport_record (st\<lparr>patients := AList.update (entity_id e) (p\<lparr>triage_time := Some (time e)\<rparr>) (patients st)\<rparr>)"
    using a by (simp add: no_transport_record_def)
  then show ?thesis using ntr_request_bed[OF r] by simp
qed

lemma ntr_handle_imaging_request:
  "handle_imaging_request G e st = Inr st' \<Longrightarrow> no_transport_record st \<Longrightarrow> no_transport_record st'"
  by (auto simp: handle_imaging_request_def Let_def case_prod_unfold no_transport_record_def schedule_event_def
      split: option.splits if_splits)

lemma ntr_handle_imaging_end:
  "handle_imaging_end G e st = Inr st' \<Longrightarrow> no_transport_record st \<Longrightarrow> no_transport_record st'"
  by (auto simp: handle_imaging_end_def Let_def case_prod_unfold no_transport_record_def schedule_event_def
      split: option.splits list.splits)

lemma ntr_free_bed: "free_bed G e p st = Inr st' \<Longrightarrow> no_transport_record st \<Longrightarrow> no_transport_record st'"
  by (auto simp: free_bed_def Let_def case_prod_unfold no_transport_record_def schedule_event_def
      split: option.splits if_splits)

lemma ntr_free_nurse: "free_nurse p st = Inr st' \<Longrightarrow> no_transport_record st \<Longrightarrow> no_transport_record st'"
  by (auto simp: free_nurse_def Let_def no_transport_record_def split: option.splits if_splits)

lemma ntr_handle_discharge:
  "handle_discharge G e st = Inr st' \<Longrightarrow> no_transport_record st \<Longrightarrow> no_transport_record st'"
proof -
  assume h: "handle_discharge G e st = Inr st'" and a: "no_transport_record st"
  from h obtain p0 st2 st3 where
    fb: "free_bed G e (p0\<lparr>discharge_time := Some (time e)\<rparr>)
           (st\<lparr>patients := AList.update (entity_id e) (p0\<lparr>discharge_time := Some (time e)\<rparr>) (patients st)\<rparr>) = Inr st2"
    and fn: "free_nurse (p0\<lparr>discharge_time := Some (time e)\<rparr>) st2 = Inr st3"
    and st': "st' = st3\<lparr>patient_outcomes := patient_outcomes st3 @ [outcome_of (p0\<lparr>discharge_time := Some (time e)\<rparr>)]\<rparr>"
    by (auto simp: handle_discharge_def Let_def split: option.splits sum.splits)
  have "no_transport_record (st\<lparr>patients := AList.update (entity_id e) (p0\<lparr>discharge_time := Some (time e)\<rparr>) (patients st)\<rparr>)"
    using a by (simp add: no_transport_record_def)
  then have "no_transport_record st3" using ntr_free_bed[OF fb] ntr_free_nurse[OF fn] by simp
  then show ?thesis by (simp add: st' no_transport_record_def)
qed

lemma ntr_handle_cleaning_end:
  "handle_cleaning_end G e st = Inr st' \<Longrightarrow> no_transport_record st \<Longrightarrow> no_transport_record st'"
proof -
  assume a: "no_transport_record st"
  have "no_transport_record (assign_bed G pk p bk b t (st\<lparr>beds := bs, bed_queue := q\<rparr>))" for pk p bk b t bs q
    by (rule ntr_assign_bed) (use a in \<open>simp add: no_transport_record_def\<close>)
  moreover have "no_transport_record (st\<lparr>beds := bs\<rparr>)" for bs
    using a by (simp add: no_transport_record_def)
  ultimately show "handle_cleaning_end G e st = Inr st' \<Longrightarrow> no_transport_record st'"
    by (auto simp: handle_cleaning_end_def Let_def split: option.splits list.splits event_data.splits)
qed

lemma ntr_process_event: "process_event G e st = Inr st' \<Longrightarrow> no_transport_record st \<Longrightarrow> no_transport_record st'"
  by (auto simp: process_event_def split: SimEventType.splits
      dest: ntr_handle_arrival ntr_handle_triage_end ntr_handle_imaging_request
            ntr_handle_imaging_end ntr_handle_discharge ntr_handle_cleaning_end)

lemma loop_body_cases:
  assumes "loop_body G cb ls = Inr ls'"
  obtains ev q st where "heappop (event_queue (engine ls)) = Inr (ev, q)"
    and "process_event G ev ((engine ls)\<lparr>event_queue := q, current_time := time ev\<rparr>) = Inr st"
    and "engine ls' = st \<or> engine ls' = collect_metrics st"
  using assms
  by (auto simp: loop_body_def split: sum.splits prod.splits if_splits)

lemma transport_idle_loop_body:
  assumes "transport_idle (engine ls)" and "loop_body G cb ls = Inr ls'"
  shows "transport_idle (engine ls')"
proof -
  from assms(2) obtain ev q st where
    pe: "process_event G ev ((engine ls)\<lparr>event_queue := q, current_time := time ev\<rparr>) = Inr st"
    and e: "engine ls' = st \<or> engine ls' = collect_metrics st"
    by (rule loop_body_cases)
  let ?s0 = "(engine ls)\<lparr>event_queue := q, current_time := time ev\<rparr>"
  have "no_transport_record ?s0" using assms(1) by (simp add: transport_idle_def no_transport_record_def)
  then have n: "no_transport_record st" using ntr_process_event[OF pe] by simp
  have u: "transport_in_use st = 0" "transport_queue st = []"
    using untouched_process_event[OF pe] assms(1) by (simp_all add: untouched_def transport_idle_def)
  have "transport_idle st" using n u by (simp add: transport_idle_def)
  moreover have "transport_idle (collect_metrics st)"
    using n u by (simp add: transport_idle_def collect_metrics_def Let_def no_transport_record_def)
  ultimately show ?thesis using e by auto
qed

lemma summary_keys:
  "fst ` set (foldl summary_step acc evs) \<subseteq> fst ` set acc \<union> constraint ` set evs"
proof (induction evs arbitrary: acc)
  case Nil
  then show ?case by simp
next
  case (Cons b evs)
  have "fst ` set (summary_step acc b) = {constraint b} \<union> fst ` set acc"
    by (simp add: summary_step_def case_prod_unfold Let_def dom_update)
  then show ?case using Cons.IH[of "summary_step acc b"] by auto
qed

lemma result_constraints:
  "r_constraint ` set (res_bottlenecks (calculate_results st)) \<subseteq> constraint ` set (bottleneck_events st)"
proof -
  have "r_constraint ` set (res_bottlenecks (calculate_results st))
          \<subseteq> r_constraint ` set (map (bottleneck_of (length (patient_outcomes st))) (foldl summary_step [] (bottleneck_events st)))"
    using set_take_subset by (fastforce simp: calculate_results_def Let_def case_prod_unfold)
  also have "\<dots> = fst ` set (foldl summary_step [] (bottleneck_events st))"
    by (force simp: bottleneck_of_def case_prod_unfold)
  also have "\<dots> \<subseteq> constraint ` set (bottleneck_events st)"
    using summary_keys[of "[]" "bottleneck_events st"] by simp
  finally show ?thesis .
qed

text \<open>
  Claim C9. In every state the main loop of a run passes through, the last one included,
  \<open>transport_in_use\<close> is 0, \<open>transport_queue\<close> is empty and the bottleneck log holds no
  \<open>transport_capacity\<close> record; so the bottleneck list computed from the log holds none
  either. \<open>transport_capacity\<close> itself keeps the value the constructor configured.
\<close>

theorem transport_never_acquired:
  assumes "generate_arrivals G (SimulationEngine_init G ps seed) = Some (Inr st1)"
    and "run_reaches G cb (loop_start st1 w) ls"
  shows "transport_in_use (engine ls) = 0 \<and> transport_queue (engine ls) = []
       \<and> (\<forall>b \<in> set (bottleneck_events (engine ls)). constraint b \<noteq> ''transport_capacity'')
       \<and> (\<forall>b \<in> set (res_bottlenecks (calculate_results (engine ls))). r_constraint b \<noteq> ''transport_capacity'')
       \<and> transport_capacity (engine ls)
           = py_int ((case p_transport_capacity ps of None \<Rightarrow> 1 | Some c \<Rightarrow> c) * 2)"
proof -
  have u: "untouched (SimulationEngine_init G ps seed) st1"
    using assms(1) by (rule untouched_generate_arrivals)
  have b1: "bottleneck_events st1 = []"
    by (rule arrivals_loop_invariant[where I = "\<lambda>s. bottleneck_events s = []"
          and st = "SimulationEngine_init G ps seed"])
       (use assms(1) in \<open>auto simp: generate_arrivals_def Let_def init_fields arrival_step_def
            case_prod_unfold schedule_event_def split: if_splits sum.splits\<close>)
  have i0: "transport_idle (engine (loop_start st1 w))"
    using u b1 by (simp add: transport_idle_def untouched_def init_fields loop_start_def no_transport_record_def)
  have tc0: "transport_capacity (engine (loop_start st1 w))
           = py_int ((case p_transport_capacity ps of None \<Rightarrow> 1 | Some c \<Rightarrow> c) * 2)"
    using u by (simp add: untouched_def loop_start_def SimulationEngine_init_def initialize_resources_def Let_def)
  have inv: "transport_idle (engine ls) \<and> transport_capacity (engine ls)
           = py_int ((case p_transport_capacity ps of None \<Rightarrow> 1 | Some c \<Rightarrow> c) * 2)"
  proof (rule run_reaches_invariant[OF assms(2), where I = "\<lambda>l. transport_idle (engine l) \<and> transport_capacity (engine l)
           = py_int ((case p_transport_capacity ps of None \<Rightarrow> 1 | Some c \<Rightarrow> c) * 2)"])
    show "transport_idle (engine (loop_start st1 w)) \<and> transport_capacity (engine (loop_start st1 w))
           = py_int ((case p_transport_capacity ps of None \<Rightarrow> 1 | Some c \<Rightarrow> c) * 2)"
      using i0 tc0 by simp
  next
    fix a b :: "('a, 'b) run_state"
    assume ia: "transport_idle (engine a) \<and> transport_capacity (engine a)
           = py_int ((case p_transport_capacity ps of None \<Rightarrow> 1 | Some c \<Rightarrow> c) * 2)"
      and lb: "loop_body G cb a = Inr b"
    from lb obtain ev q st where
      pe: "process_event G ev ((engine a)\<lparr>event_queue := q, current_time := time ev\<rparr>) = Inr st"
      and e: "engine b = st \<or> engine b = collect_metrics st"
      by (rule loop_body_cases)
    have "transport_capacity st = transport_capacity (engine a)"
      using untouched_process_event[OF pe] by (simp add: untouched_def)
    then have "transport_capacity (engine b) = transport_capacity (engine a)"
      using e by (auto simp: collect_metrics_def Let_def)
    then show "transport_idle (engine b) \<and> transport_capacity (engine b)
           = py_int ((case p_transport_capacity ps of None \<Rightarrow> 1 | Some c \<Rightarrow> c) * 2)"
      using ia transport_idle_loop_body[OF _ lb] by simp
  qed
  then have n: "\<forall>b \<in> set (bottleneck_events (engine ls)). constraint b \<noteq> ''transport_capacity''"
    by (simp add: transport_idle_def no_transport_record_def)
  have "\<forall>b \<in> set (res_bottlenecks (calculate_results (engine ls))). r_constraint b \<noteq> ''transport_capacity''"
    using n result_constraints[of "engine ls"] by (metis image_iff subsetD)
  then show ?thesis using inv n by (simp add: transport_idle_def)
qed

text \<open>
  The statement at a run with three patients and two beds, whose only bottleneck is
  \<open>bed_availability\<close>.
\<close>

theorem transport_never_acquired_witness:
  "(case run busy_generator None () (SimulationEngine_init busy_generator sample_parameters 42) of
      Some (Inr (res, st, w)) \<Rightarrow>
        transport_in_use st = 0 \<and> transport_queue st = [] \<and> transport_capacity st = 2
        \<and> map constraint (bottleneck_events st) = [''bed_availability'']
        \<and> map r_constraint (res_bottlenecks res) = [''bed_availability'']
    | _ \<Rightarrow> False)"
proof -
  let ?r = "run busy_generator None () (SimulationEngine_init busy_generator sample_parameters 42)"
  have c: "(case ?r of
      Some (Inr (res, st, w)) \<Rightarrow>
        map constraint (bottleneck_events st) = [''bed_availability'']
        \<and> map r_constraint (res_bottlenecks res) = [''bed_availability'']
    | _ \<Rightarrow> False)"
    by code_simp
  then obtain res st w' where r: "?r = Some (Inr (res, st, w'))"
    by (auto split: option.splits sum.splits)
  from r obtain st1 ls where
    ga: "generate_arrivals busy_generator (SimulationEngine_init busy_generator sample_parameters 42) = Some (Inr st1)"
    and ml: "main_loop busy_generator None (loop_start st1 ()) = Some (Inr ls)"
    and st: "st = engine ls"
    by (rule run_cases)
  have reach: "run_reaches busy_generator None (loop_start st1 ()) ls"
    using main_loop_reaches[OF ml] by simp
  have "transport_in_use st = 0 \<and> transport_queue st = [] \<and> transport_capacity st = 2"
    using transport_never_acquired[OF ga reach] by (simp add: st sample_parameters_def py_int_def)
  then show ?thesis using c r by simp
qed


subsection \<open>Counting the passes of the loop\<close>

lemma heappop_Nil [simp]: "heappop [] = Inl IndexError"
  by (simp add: heappop_def)

lemma heappop_Inr_nonempty: "heappop q = Inr x \<Longrightarrow> q \<noteq> []"
  by auto

lemma loop_body_pops:
  "loop_body G cb ls = Inr ls' \<Longrightarrow> \<exists>ev q. heappop (event_queue (engine ls)) = Inr (ev, q)"
  by (auto simp: loop_body_def split: sum.splits)

lemma run_reaches_first:
  assumes "run_reaches G cb a b" and "event_queue (engine ls) \<noteq> []" and "loop_body G cb ls = Inr a"
  shows "run_reaches G cb ls b"
  using assms(1)
proof (induction rule: run_reaches.induct)
  case start
  show ?case using run_reaches.pass[OF run_reaches.start assms(2,3)] .
next
  case (pass x y)
  show ?case using pass.IH pass.hyps(2,3) by (rule run_reaches.pass)
qed

lemma loop_passes_reaches:
  "loop_passes n G cb ls = Some (es, ls') \<Longrightarrow> run_reaches G cb ls ls'"
proof (induction n arbitrary: ls es)
  case 0
  then show ?case by (simp add: run_reaches.start)
next
  case (Suc n)
  from Suc.prems obtain ev q a es' where
    hp: "heappop (event_queue (engine ls)) = Inr (ev, q)" and lb: "loop_body G cb ls = Inr a"
    and rest: "loop_passes n G cb a = Some (es', ls')"
    by (auto split: sum.splits)
  have "run_reaches G cb a ls'" using Suc.IH[OF rest] .
  then show ?case using heappop_Inr_nonempty[OF hp] lb by (rule run_reaches_first)
qed

lemma main_loop_passes:
  "main_loop G cb ls = Some (Inr ls') \<Longrightarrow>
     \<exists>n es. loop_passes n G cb ls = Some (es, ls') \<and> event_queue (engine ls') = []"
proof -
  have "main_loop G cb ls = Some r \<Longrightarrow>
          (\<forall>ls'. r = Inr ls' \<longrightarrow>
             (\<exists>n es. loop_passes n G cb ls = Some (es, ls') \<and> event_queue (engine ls') = []))" for r
  proof (induction rule: main_loop.raw_induct[rotated 1, consumes 1])
    case (1 main_loop' G cb ls r)
    show ?case
    proof (intro allI impI)
      fix ls'
      assume r: "r = Inr ls'"
      show "\<exists>n es. loop_passes n G cb ls = Some (es, ls') \<and> event_queue (engine ls') = []"
      proof (cases "event_queue (engine ls) \<noteq> []")
        case False
        then have "loop_passes 0 G cb ls = Some ([], ls') \<and> event_queue (engine ls') = []"
          using 1(2) r by simp
        then show ?thesis by blast
      next
        case True
        then obtain a where a: "loop_body G cb ls = Inr a" and rec: "main_loop' G cb a = Some r"
          using 1(2) r by (auto split: sum.splits)
        from 1(1)[OF rec] r obtain n es where
          n: "loop_passes n G cb a = Some (es, ls')" and e: "event_queue (engine ls') = []"
          by blast
        from loop_body_pops[OF a] obtain ev q where "heappop (event_queue (engine ls)) = Inr (ev, q)"
          by blast
        then have "loop_passes (Suc n) G cb ls = Some (ev # es, ls')"
          using a n by simp
        then show ?thesis using e by blast
      qed
    qed
  qed
  then show "main_loop G cb ls = Some (Inr ls') \<Longrightarrow>
     \<exists>n es. loop_passes n G cb ls = Some (es, ls') \<and> event_queue (engine ls') = []"
    by blast
qed

text \<open>The loop ends after one number of passes only.\<close>

lemma loop_passes_end_unique:
  "loop_passes n G cb ls = Some (es, a) \<Longrightarrow> event_queue (engine a) = [] \<Longrightarrow>
   loop_passes m G cb ls = Some (es', a') \<Longrightarrow> event_queue (engine a') = [] \<Longrightarrow>
   n = m \<and> es = es' \<and> a = a'"
proof (induction n arbitrary: m ls es es')
  case 0
  then show ?case by (cases m) auto
next
  case (Suc n)
  from Suc.prems(1) obtain ev q l1 es1 where
    hp: "heappop (event_queue (engine ls)) = Inr (ev, q)" and lb: "loop_body G cb ls = Inr l1"
    and rest: "loop_passes n G cb l1 = Some (es1, a)" and es: "es = ev # es1"
    by (auto split: sum.splits)
  show ?case
  proof (cases m)
    case 0
    then have "a' = ls" using Suc.prems(3) by simp
    then show ?thesis using Suc.prems(4) hp by simp
  next
    case (Suc m')
    then obtain es1' where rest': "loop_passes m' G cb l1 = Some (es1', a')" and es': "es' = ev # es1'"
      using Suc.prems(3) hp lb by auto
    from Suc.IH[OF rest Suc.prems(2) rest' Suc.prems(4)]
    show ?thesis using es es' Suc by simp
  qed
qed

section \<open>The order of the bed scan\<close>

text \<open>
  \<open>_initialize_resources\<close> inserts the beds under the keys 1 to \<open>num_beds\<close> in that order,
  and nothing in the engine inserts or deletes a key afterwards: every handler replaces
  the bed stored under a key that is there.
\<close>

lemma fold_update_keys:
  "distinct ks \<Longrightarrow> set ks \<inter> fst ` set al = {} \<Longrightarrow>
     map fst (fold (\<lambda>i. AList.update i (f i)) ks al) = map fst al @ ks"
proof (induction ks arbitrary: al)
  case Nil
  then show ?case by simp
next
  case (Cons k ks)
  have k: "k \<notin> fst ` set al" using Cons.prems(2) by auto
  then have m: "map fst (AList.update k (f k) al) = map fst al @ [k]"
    by (simp add: update_keys)
  have "set ks \<inter> fst ` set (AList.update k (f k) al) = {}"
  proof -
    have "fst ` set (AList.update k (f k) al) = set (map fst al @ [k])"
      unfolding m[symmetric] by simp
    then show ?thesis using Cons.prems by auto
  qed
  then have "map fst (fold (\<lambda>i. AList.update i (f i)) ks (AList.update k (f k) al))
               = map fst (AList.update k (f k) al) @ ks"
    using Cons.IH Cons.prems(1) by simp
  then show ?case using m by simp
qed

lemma bed_ids_init: "bed_ids (SimulationEngine_init G ps seed) = [1..num_beds ps]"
  using fold_update_keys[of "[1..num_beds ps]" "[]"]
  by (simp add: bed_ids_def num_beds_def SimulationEngine_init_def initialize_resources_def Let_def)

lemma update_present_keys:
  "map_of al k = Some v \<Longrightarrow> map fst (AList.update k v' al) = map fst al"
  by (simp add: update_keys map_of_eq_None_iff[symmetric] del: map_of_eq_None_iff)

lemma bed_ids_schedule_event [simp]: "bed_ids (schedule_event e st) = bed_ids st"
  by (simp add: bed_ids_def)

lemma bed_ids_assign_nurse [simp]: "bed_ids (snd (assign_nurse pk p t st)) = bed_ids st"
  by (simp add: bed_ids_def)

lemma bed_ids_assign_bed:
  assumes "map_of (beds st) bk = Some b0"
  shows "bed_ids (assign_bed G pk p bk b t st) = bed_ids st"
  using update_present_keys[OF assms] by (simp add: bed_ids_def assign_bed_beds)

lemma find_map_of:
  "find P al = Some (k, v) \<Longrightarrow> \<exists>v0. map_of al k = Some v0"
  by (metis find_Some_iff map_of_eq_None_iff nth_mem fst_conv image_eqI not_Some_eq)

lemma bed_ids_request_bed: "request_bed G pid t st = Inr st' \<Longrightarrow> bed_ids st' = bed_ids st"
  by (auto simp: request_bed_def Let_def split: option.splits dest!: find_map_of intro: bed_ids_assign_bed)
     (simp add: bed_ids_def)

lemma bed_ids_handle_arrival: "handle_arrival G e st = Inr st' \<Longrightarrow> bed_ids st' = bed_ids st"
  by (auto simp: handle_arrival_def Let_def case_prod_unfold bed_ids_def split: event_data.splits)

lemma bed_ids_handle_triage_end: "handle_triage_end G e st = Inr st' \<Longrightarrow> bed_ids st' = bed_ids st"
  by (auto simp: handle_triage_end_def Let_def split: option.splits dest!: bed_ids_request_bed)
     (simp add: bed_ids_def)

lemma bed_ids_handle_imaging_request: "handle_imaging_request G e st = Inr st' \<Longrightarrow> bed_ids st' = bed_ids st"
  by (auto simp: handle_imaging_request_def Let_def case_prod_unfold bed_ids_def
      split: option.splits if_splits)

lemma bed_ids_handle_imaging_end: "handle_imaging_end G e st = Inr st' \<Longrightarrow> bed_ids st' = bed_ids st"
  by (auto simp: handle_imaging_end_def Let_def case_prod_unfold bed_ids_def
      split: option.splits list.splits)

lemma bed_ids_free_bed: "free_bed G e p st = Inr st' \<Longrightarrow> bed_ids st' = bed_ids st"
  by (auto simp: free_bed_def Let_def case_prod_unfold bed_ids_def update_present_keys
      split: option.splits if_splits)

lemma bed_ids_free_nurse: "free_nurse p st = Inr st' \<Longrightarrow> bed_ids st' = bed_ids st"
  by (auto simp: free_nurse_def Let_def bed_ids_def split: option.splits if_splits)

lemma bed_ids_handle_discharge: "handle_discharge G e st = Inr st' \<Longrightarrow> bed_ids st' = bed_ids st"
  by (auto simp: handle_discharge_def Let_def split: option.splits sum.splits
        dest!: bed_ids_free_bed bed_ids_free_nurse)
     (simp add: bed_ids_def)

lemma bed_ids_handle_cleaning_end: "handle_cleaning_end G e st = Inr st' \<Longrightarrow> bed_ids st' = bed_ids st"
proof -
  have a: "bed_ids (assign_bed G pk p bk b t (st\<lparr>beds := AList.update bk b (beds st), bed_queue := q\<rparr>)) = bed_ids st"
    if "map_of (beds st) bk = Some b0" for pk p bk b b0 t q
  proof -
    have "map_of (beds (st\<lparr>beds := AList.update bk b (beds st), bed_queue := q\<rparr>)) bk = Some b"
      by (simp add: update_conv')
    from bed_ids_assign_bed[OF this]
    show ?thesis using update_present_keys[OF that] by (simp add: bed_ids_def)
  qed
  show "handle_cleaning_end G e st = Inr st' \<Longrightarrow> bed_ids st' = bed_ids st"
    by (auto simp: handle_cleaning_end_def Let_def a split: option.splits list.splits event_data.splits)
       (simp add: bed_ids_def update_present_keys)
qed

lemma bed_ids_process_event: "process_event G e st = Inr st' \<Longrightarrow> bed_ids st' = bed_ids st"
  by (auto simp: process_event_def split: SimEventType.splits
      dest: bed_ids_handle_arrival bed_ids_handle_triage_end bed_ids_handle_imaging_request
            bed_ids_handle_imaging_end bed_ids_handle_discharge bed_ids_handle_cleaning_end)

lemma bed_ids_collect_metrics [simp]: "bed_ids (collect_metrics st) = bed_ids st"
  by (simp add: bed_ids_def collect_metrics_def Let_def)

lemma bed_ids_loop_body:
  assumes "loop_body G cb ls = Inr ls'"
  shows "bed_ids (engine ls') = bed_ids (engine ls)"
proof -
  from assms obtain ev q st where
    pe: "process_event G ev ((engine ls)\<lparr>event_queue := q, current_time := time ev\<rparr>) = Inr st"
    and ls': "ls' = report_progress cb
                (if current_time st - last_metric_time ls \<ge> metric_interval
                 then ls\<lparr>engine := collect_metrics st, last_metric_time := current_time st\<rparr>
                 else ls\<lparr>engine := st\<rparr>)"
    by (auto simp: loop_body_def split: sum.splits prod.splits)
  have "bed_ids st = bed_ids (engine ls)"
    using bed_ids_process_event[OF pe] by (simp add: bed_ids_def)
  then show ?thesis by (simp add: ls')
qed

lemma bed_ids_arrival_step:
  "arrival_step G rate mix ca st = Inr (Inl st') \<Longrightarrow> bed_ids st' = bed_ids st"
  "arrival_step G rate mix ca st = Inr (Inr (ca', st')) \<Longrightarrow> bed_ids st' = bed_ids st"
  by (auto simp: arrival_step_def Let_def case_prod_unfold bed_ids_def
      split: if_splits sum.splits)

lemma bed_ids_generate_arrivals:
  assumes "generate_arrivals G st = Some (Inr st')"
  shows "bed_ids st' = bed_ids st"
proof -
  let ?rate = "125 / 10 * (case p_arrival_multiplier (params st) of None \<Rightarrow> 1 | Some m \<Rightarrow> m)"
  let ?mix = "(case p_acuity_mix (params st) of None \<Rightarrow> default_acuity_mix | Some d \<Rightarrow> d)"
  have "arrivals_loop G ?rate ?mix 0 st = Some (Inr st')"
    using assms by (simp add: generate_arrivals_def Let_def)
  then show ?thesis
    by (rule arrivals_loop_invariant[where I = "\<lambda>s. bed_ids s = bed_ids st"])
       (auto dest: bed_ids_arrival_step)
qed

lemma bed_ids_run:
  assumes "generate_arrivals G (SimulationEngine_init G ps seed) = Some (Inr st0)"
    and "run_reaches G cb (loop_start st0 w) ls"
  shows "bed_ids (engine ls) = [1..num_beds ps]"
proof -
  have 0: "bed_ids (engine (loop_start st0 w)) = [1..num_beds ps]"
    using bed_ids_generate_arrivals[OF assms(1)] by (simp add: loop_start_def bed_ids_init)
  show ?thesis
    using assms(2) 0
    by (rule run_reaches_invariant[where I = "\<lambda>l. bed_ids (engine l) = [1..num_beds ps]"])
       (simp add: bed_ids_loop_body)
qed

lemma sorted_upto_less: "sorted_wrt (<) [i..j::int]"
  by (simp add: strict_sorted_iff[symmetric] flip: strict_sorted_iff) 

text \<open>
  The one call of \<open>_request_bed\<close> is at the end of \<open>_handle_triage_end\<close>: in a pass of
  the loop on a \<open>triage_end\<close> event the request is made in the state of that pass with
  the patient's triage stamp set, whose beds are those the pass started with.
\<close>

lemma triage_end_requests_bed:
  assumes "event_type ev = TRIAGE_END" and "map_of (patients (engine ls)) (entity_id ev) = Some p"
  shows "\<exists>st. beds st = beds (engine ls)
            \<and> map_of (patients st) (entity_id ev) = Some (p\<lparr>triage_time := Some (time ev)\<rparr>)
            \<and> process_event G ev ((engine ls)\<lparr>event_queue := q, current_time := time ev\<rparr>)
                = request_bed G (p_id p) (time ev) st"
  using assms
  by (intro exI[of _ "(engine ls)\<lparr>event_queue := q, current_time := time ev,
                       patients := AList.update (entity_id ev) (p\<lparr>triage_time := Some (time ev)\<rparr>) (patients (engine ls))\<rparr>"])
     (simp add: process_event_def handle_triage_end_def Let_def update_conv')

text \<open>
  Claim C6. In a run, the bed ids are 1 to \<open>num_beds\<close> in ascending order in every state
  the loop passes through, and so in the state \<open>st\<close> in which a bed is requested (no
  handler changes the ids). A bed request at time \<open>t\<close> in such a state: when some bed
  is neither occupied nor being cleaned and has \<open>available_at \<le> t\<close>, the one of them
  with the least id is assigned (it becomes occupied by the patient, who gets its id
  and the assignment time \<open>t\<close>) and the bed queue is left alone; when there is none, the
  patient is appended to the bed queue and a \<open>bed_availability\<close> record with the length
  of the queue, the patient included, is appended to the bottleneck log.
\<close>

theorem request_bed_first_available:
  assumes "generate_arrivals G (SimulationEngine_init G ps seed) = Some (Inr st0)"
    and "run_reaches G cb (loop_start st0 w) ls"
    and "bed_ids st = bed_ids (engine ls)"
    and "map_of (patients st) pid = Some patient"
  shows "bed_ids st = [1..num_beds ps] \<and> sorted_wrt (<) (bed_ids st)
       \<and> ((bkey, bed) \<in> set (beds st) \<and> \<not> is_occupied bed \<and> \<not> is_cleaning bed \<and> available_at bed \<le> t
           \<and> (\<forall>(k, b) \<in> set (beds st). k < bkey \<longrightarrow> is_occupied b \<or> is_cleaning b \<or> \<not> available_at b \<le> t)
          \<longrightarrow> (\<exists>st' p'. request_bed G pid t st = Inr st'
                 \<and> st' = assign_bed G pid patient bkey bed t st
                 \<and> map_of (beds st') bkey = Some (bed\<lparr>is_occupied := True, patient_id := Some (p_id patient)\<rparr>)
                 \<and> map_of (patients st') pid = Some p'
                 \<and> bed_id p' = Some (b_id bed) \<and> bed_assigned_time p' = Some t
                 \<and> bed_queue st' = bed_queue st))
       \<and> ((\<forall>(k, b) \<in> set (beds st). is_occupied b \<or> is_cleaning b \<or> \<not> available_at b \<le> t)
          \<longrightarrow> request_bed G pid t st =
                Inr (st\<lparr>bed_queue := bed_queue st @ [pid],
                        bottleneck_events := bottleneck_events st @
                          [\<lparr>bn_time = t, constraint = ''bed_availability'', bn_patient_id = pid,
                            queue_length = Some (length (bed_queue st) + 1), description = None\<rparr>]\<rparr>))"
proof (intro conjI impI)
  show ids: "bed_ids st = [1..num_beds ps]"
    using bed_ids_run[OF assms(1,2)] assms(3) by simp
  then show srt: "sorted_wrt (<) (bed_ids st)" by (simp add: sorted_upto_less)
  assume a: "(bkey, bed) \<in> set (beds st) \<and> \<not> is_occupied bed \<and> \<not> is_cleaning bed \<and> available_at bed \<le> t
           \<and> (\<forall>(k, b) \<in> set (beds st). k < bkey \<longrightarrow> is_occupied b \<or> is_cleaning b \<or> \<not> available_at b \<le> t)"
  have s: "sorted_wrt (<) (map fst (beds st))" using srt by (simp add: bed_ids_def)
  from a have "find (bed_available t) (beds st) = Some (bkey, bed)"
    by (intro find_first_sorted[OF s]) (auto simp: bed_available_def)
  then have r: "request_bed G pid t st = Inr (assign_bed G pid patient bkey bed t st)"
    using assms(4) by (simp add: request_bed_def)
  have q: "bed_queue (assign_bed G pid patient bkey bed t st) = bed_queue st"
    by (simp add: assign_bed_def assign_nurse_def schedule_event_def Let_def case_prod_unfold split: option.splits)
  show "\<exists>st' p'. request_bed G pid t st = Inr st'
                 \<and> st' = assign_bed G pid patient bkey bed t st
                 \<and> map_of (beds st') bkey = Some (bed\<lparr>is_occupied := True, patient_id := Some (p_id patient)\<rparr>)
                 \<and> map_of (patients st') pid = Some p'
                 \<and> bed_id p' = Some (b_id bed) \<and> bed_assigned_time p' = Some t
                 \<and> bed_queue st' = bed_queue st"
    using r q assign_bed_patient[of G pid patient bkey bed t st]
    by (auto simp: assign_bed_beds update_conv')
next
  assume "\<forall>(k, b) \<in> set (beds st). is_occupied b \<or> is_cleaning b \<or> \<not> available_at b \<le> t"
  then have "find (bed_available t) (beds st) = None"
    by (auto simp: find_None_iff bed_available_def)
  then show "request_bed G pid t st =
                Inr (st\<lparr>bed_queue := bed_queue st @ [pid],
                        bottleneck_events := bottleneck_events st @
                          [\<lparr>bn_time = t, constraint = ''bed_availability'', bn_patient_id = pid,
                            queue_length = Some (length (bed_queue st) + 1), description = None\<rparr>]\<rparr>)"
    using assms(4) by (simp add: request_bed_def Let_def)
qed

text \<open>
  The statement in the run on the draws of \<open>busy_generator\<close> with two beds. After the
  first pass patient 1 has arrived and both beds are free: a request takes bed 1. After
  three passes bed 1 is occupied: a request for patient 2 takes bed 2. After five passes
  both are occupied: a request for patient 3 puts the patient in the queue.
\<close>

theorem request_bed_first_available_witness:
  "(case generate_arrivals busy_generator (SimulationEngine_init busy_generator sample_parameters 42) of
      Some (Inr st0) \<Rightarrow>
        (case loop_passes 1 busy_generator None (loop_start st0 ()) of
           Some (es, ls) \<Rightarrow>
             bed_ids (engine ls) = [1, 2]
             \<and> map (\<lambda>kb. is_occupied (snd kb)) (beds (engine ls)) = [False, False]
             \<and> (\<exists>st' p'. request_bed busy_generator 1 15 (engine ls) = Inr st'
                  \<and> map_option is_occupied (map_of (beds st') 1) = Some True
                  \<and> map_option patient_id (map_of (beds st') 1) = Some (Some 1)
                  \<and> map_of (patients st') 1 = Some p' \<and> bed_id p' = Some 1 \<and> bed_assigned_time p' = Some 15
                  \<and> bed_queue st' = [])
         | None \<Rightarrow> False)
        \<and> (case loop_passes 3 busy_generator None (loop_start st0 ()) of
           Some (es, ls) \<Rightarrow>
             bed_ids (engine ls) = [1, 2]
             \<and> map (\<lambda>kb. is_occupied (snd kb)) (beds (engine ls)) = [True, False]
             \<and> (\<exists>st' p'. request_bed busy_generator 2 25 (engine ls) = Inr st'
                  \<and> map_option is_occupied (map_of (beds st') 2) = Some True
                  \<and> map_option patient_id (map_of (beds st') 2) = Some (Some 2)
                  \<and> map_of (patients st') 2 = Some p' \<and> bed_id p' = Some 2 \<and> bed_assigned_time p' = Some 25
                  \<and> bed_queue st' = [])
         | None \<Rightarrow> False)
        \<and> (case loop_passes 5 busy_generator None (loop_start st0 ()) of
           Some (es, ls) \<Rightarrow>
             bed_ids (engine ls) = [1, 2]
             \<and> map (\<lambda>kb. is_occupied (snd kb)) (beds (engine ls)) = [True, True]
             \<and> (\<exists>st'. request_bed busy_generator 3 35 (engine ls) = Inr st'
                  \<and> bed_queue st' = [3]
                  \<and> bottleneck_events st' =
                       [\<lparr>bn_time = 35, constraint = ''bed_availability'', bn_patient_id = 3,
                         queue_length = Some 1, description = None\<rparr>])
         | None \<Rightarrow> False)
    | _ \<Rightarrow> False)"
proof -
  let ?G = busy_generator
  let ?i = "SimulationEngine_init ?G sample_parameters 42"
  let ?free1 = "\<lparr>b_id = 1, bed_type = ''isolation'', is_occupied = False, is_cleaning = False, patient_id = None, available_at = 0\<rparr>"
  let ?free2 = "\<lparr>b_id = 2, bed_type = ''isolation'', is_occupied = False, is_cleaning = False, patient_id = None, available_at = 0\<rparr>"
  let ?busy1 = "\<lparr>b_id = 1, bed_type = ''isolation'', is_occupied = True, is_cleaning = False, patient_id = Some 1, available_at = 0\<rparr>"
  let ?busy2 = "\<lparr>b_id = 2, bed_type = ''isolation'', is_occupied = True, is_cleaning = False, patient_id = Some 2, available_at = 0\<rparr>"
  have c: "(case generate_arrivals ?G ?i of
      Some (Inr st0) \<Rightarrow>
        (case loop_passes 1 ?G None (loop_start st0 ()) of
           Some (es, ls) \<Rightarrow>
             beds (engine ls) = [(1, ?free1), (2, ?free2)]
             \<and> map_option p_id (map_of (patients (engine ls)) 1) = Some 1
             \<and> bed_queue (engine ls) = []
         | None \<Rightarrow> False)
        \<and> (case loop_passes 3 ?G None (loop_start st0 ()) of
           Some (es, ls) \<Rightarrow>
             beds (engine ls) = [(1, ?busy1), (2, ?free2)]
             \<and> map_option p_id (map_of (patients (engine ls)) 2) = Some 2
             \<and> bed_queue (engine ls) = []
         | None \<Rightarrow> False)
        \<and> (case loop_passes 5 ?G None (loop_start st0 ()) of
           Some (es, ls) \<Rightarrow>
             beds (engine ls) = [(1, ?busy1), (2, ?busy2)]
             \<and> map_option p_id (map_of (patients (engine ls)) 3) = Some 3
             \<and> bed_queue (engine ls) = [] \<and> bottleneck_events (engine ls) = []
         | None \<Rightarrow> False)
    | _ \<Rightarrow> False)"
    by code_simp
  then obtain st0 where ga: "generate_arrivals ?G ?i = Some (Inr st0)"
    by (auto split: option.splits sum.splits)
  have c0: "(case loop_passes 1 ?G None (loop_start st0 ()) of
           Some (es, ls) \<Rightarrow>
             beds (engine ls) = [(1, ?free1), (2, ?free2)]
             \<and> map_option p_id (map_of (patients (engine ls)) 1) = Some 1
             \<and> bed_queue (engine ls) = []
         | None \<Rightarrow> False)
        \<and> (case loop_passes 3 ?G None (loop_start st0 ()) of
           Some (es, ls) \<Rightarrow>
             beds (engine ls) = [(1, ?busy1), (2, ?free2)]
             \<and> map_option p_id (map_of (patients (engine ls)) 2) = Some 2
             \<and> bed_queue (engine ls) = []
         | None \<Rightarrow> False)
        \<and> (case loop_passes 5 ?G None (loop_start st0 ()) of
           Some (es, ls) \<Rightarrow>
             beds (engine ls) = [(1, ?busy1), (2, ?busy2)]
             \<and> map_option p_id (map_of (patients (engine ls)) 3) = Some 3
             \<and> bed_queue (engine ls) = [] \<and> bottleneck_events (engine ls) = []
         | None \<Rightarrow> False)"
    using c by (simp only: ga option.case sum.case)
  then obtain es1 ls1 es3 ls3 es5 ls5 where
    lp1: "loop_passes 1 ?G None (loop_start st0 ()) = Some (es1, ls1)"
    and lp3: "loop_passes 3 ?G None (loop_start st0 ()) = Some (es3, ls3)"
    and lp5: "loop_passes 5 ?G None (loop_start st0 ()) = Some (es5, ls5)"
    by (auto split: option.splits)
  have f1: "beds (engine ls1) = [(1, ?free1), (2, ?free2)]"
       "map_option p_id (map_of (patients (engine ls1)) 1) = Some 1" "bed_queue (engine ls1) = []"
   and f3: "beds (engine ls3) = [(1, ?busy1), (2, ?free2)]"
       "map_option p_id (map_of (patients (engine ls3)) 2) = Some 2" "bed_queue (engine ls3) = []"
   and f5: "beds (engine ls5) = [(1, ?busy1), (2, ?busy2)]"
       "map_option p_id (map_of (patients (engine ls5)) 3) = Some 3" "bed_queue (engine ls5) = []"
       "bottleneck_events (engine ls5) = []"
    using c0 by (simp_all only: lp1 lp3 lp5 option.case prod.case)
  from f1(2) obtain p1 where p1: "map_of (patients (engine ls1)) 1 = Some p1" "p_id p1 = 1" by auto
  from f3(2) obtain p2 where p2: "map_of (patients (engine ls3)) 2 = Some p2" "p_id p2 = 2" by auto
  from f5(2) obtain p3 where p3: "map_of (patients (engine ls5)) 3 = Some p3" "p_id p3 = 3" by auto
  have n: "[1..num_beds sample_parameters] = [1, 2]"
    by (simp add: num_beds_def sample_parameters_def upto.simps)
  from request_bed_first_available[OF ga loop_passes_reaches[OF lp1] refl p1(1), of 1 ?free1 15]
  have r1: "bed_ids (engine ls1) = [1, 2]
     \<and> (\<exists>st' p'. request_bed ?G 1 15 (engine ls1) = Inr st'
                  \<and> map_option is_occupied (map_of (beds st') 1) = Some True
                  \<and> map_option patient_id (map_of (beds st') 1) = Some (Some 1)
                  \<and> map_of (patients st') 1 = Some p' \<and> bed_id p' = Some 1 \<and> bed_assigned_time p' = Some 15
                  \<and> bed_queue st' = [])"
    using f1 p1 n by auto
  from request_bed_first_available[OF ga loop_passes_reaches[OF lp3] refl p2(1), of 2 ?free2 25]
  have r3: "bed_ids (engine ls3) = [1, 2]
     \<and> (\<exists>st' p'. request_bed ?G 2 25 (engine ls3) = Inr st'
                  \<and> map_option is_occupied (map_of (beds st') 2) = Some True
                  \<and> map_option patient_id (map_of (beds st') 2) = Some (Some 2)
                  \<and> map_of (patients st') 2 = Some p' \<and> bed_id p' = Some 2 \<and> bed_assigned_time p' = Some 25
                  \<and> bed_queue st' = [])"
    using f3 p2 n by auto
  from request_bed_first_available[OF ga loop_passes_reaches[OF lp5] refl p3(1), of 1 ?free1 35]
  have r5: "bed_ids (engine ls5) = [1, 2]
     \<and> (\<exists>st'. request_bed ?G 3 35 (engine ls5) = Inr st'
                  \<and> bed_queue st' = [3]
                  \<and> bottleneck_events st' =
                       [\<lparr>bn_time = 35, constraint = ''bed_availability'', bn_patient_id = 3,
                         queue_length = Some 1, description = None\<rparr>])"
    using f5 p3 n by auto
  have o: "map (\<lambda>kb. is_occupied (snd kb)) (beds (engine ls1)) = [False, False]"
      "map (\<lambda>kb. is_occupied (snd kb)) (beds (engine ls3)) = [True, False]"
      "map (\<lambda>kb. is_occupied (snd kb)) (beds (engine ls5)) = [True, True]"
    by (simp_all add: f1 f3 f5)
  show ?thesis
    apply (simp only: ga lp1 lp3 lp5 option.case sum.case prod.case)
    using r1 r3 r5 o by blast
qed
section \<open>The event queue keeps its events\<close>

lemma mset_update_swap:
  assumes "i < length xs" "j < length xs" "i \<noteq> j"
  shows "mset (xs[i := xs ! j, j := x]) = mset (xs[i := x])"
proof -
  have "mset (xs[i := xs ! j, j := x]) = add_mset x (mset (xs[i := xs ! j]) - {#xs ! j#})"
    using assms by (simp add: mset_update)
  also have "mset (xs[i := xs ! j]) = add_mset (xs ! j) (mset xs - {#xs ! i#})"
    using assms by (simp add: mset_update)
  finally show ?thesis using assms by (simp add: mset_update)
qed

lemma length_siftdown_loop [simp]:
  "length (siftdown_loop heap startpos pos newitem) = length heap"
  by (induction heap startpos pos newitem rule: siftdown_loop.induct)
     (subst siftdown_loop.simps, simp add: Let_def)

lemma mset_siftdown_loop:
  "pos < length heap \<Longrightarrow> mset (siftdown_loop heap startpos pos newitem) = mset (heap[pos := newitem])"
proof (induction heap startpos pos newitem rule: siftdown_loop.induct)
  case (1 heap startpos pos newitem)
  show ?case
  proof (cases "pos > startpos \<and> time newitem < time (heap ! ((pos - 1) div 2))")
    case False
    then show ?thesis by (subst siftdown_loop.simps) (auto simp: Let_def)
  next
    case True
    let ?pp = "(pos - 1) div 2"
    have pp: "?pp < pos" "?pp < length heap" using True 1(2) by auto
    have "siftdown_loop heap startpos pos newitem = siftdown_loop (heap[pos := heap ! ?pp]) startpos ?pp newitem"
      using True by (subst siftdown_loop.simps) (simp add: Let_def)
    also have "mset \<dots> = mset (heap[pos := heap ! ?pp, ?pp := newitem])"
      using True pp by (intro 1(1)) auto
    also have "\<dots> = mset (heap[pos := newitem])"
      using pp 1(2) by (intro mset_update_swap) auto
    finally show ?thesis .
  qed
qed

lemma mset_siftdown: "pos < length heap \<Longrightarrow> mset (siftdown heap startpos pos) = mset heap"
  by (simp add: siftdown_def mset_siftdown_loop)

lemma siftup_loop_props:
  "pos < length heap \<Longrightarrow> endpos = length heap \<Longrightarrow>
     snd (siftup_loop heap endpos pos) < length heap
     \<and> length (fst (siftup_loop heap endpos pos)) = length heap
     \<and> (\<forall>x. mset ((fst (siftup_loop heap endpos pos))[snd (siftup_loop heap endpos pos) := x]) = mset (heap[pos := x]))"
proof (induction heap endpos pos rule: siftup_loop.induct)
  case (1 heap endpos pos)
  show ?case
  proof (cases "2 * pos + 1 < endpos")
    case False
    then show ?thesis by (subst (1 2 3 4) siftup_loop.simps) (simp add: Let_def 1(2))
  next
    case True
    define c where "c = (if 2 * pos + 1 + 1 < endpos \<and> \<not> time (heap ! (2 * pos + 1)) < time (heap ! (2 * pos + 1 + 1))
                         then 2 * pos + 1 + 1 else 2 * pos + 1)"
    have c: "c < length heap" "pos \<noteq> c" using True 1(3) by (auto simp: c_def)
    have eq: "siftup_loop heap endpos pos = siftup_loop (heap[pos := heap ! c]) endpos c"
      using True by (subst siftup_loop.simps) (simp add: Let_def c_def)
    have ih: "snd (siftup_loop (heap[pos := heap ! c]) endpos c) < length (heap[pos := heap ! c])
     \<and> length (fst (siftup_loop (heap[pos := heap ! c]) endpos c)) = length (heap[pos := heap ! c])
     \<and> (\<forall>x. mset ((fst (siftup_loop (heap[pos := heap ! c]) endpos c))[snd (siftup_loop (heap[pos := heap ! c]) endpos c) := x])
            = mset (heap[pos := heap ! c, c := x]))"
      using True c 1(3) by (intro 1(1)[OF refl True refl, of c]) (auto simp: c_def)
    have "mset (heap[pos := heap ! c, c := x]) = mset (heap[pos := x])" for x
      using c 1(2) by (intro mset_update_swap) auto
    then show ?thesis using ih by (simp add: eq)
  qed
qed

lemma mset_siftup: "pos < length heap \<Longrightarrow> mset (siftup heap pos) = mset heap"
proof -
  assume p: "pos < length heap"
  let ?r = "siftup_loop heap (length heap) pos"
  have pr: "snd ?r < length heap" "length (fst ?r) = length heap"
    "mset ((fst ?r)[snd ?r := heap ! pos]) = mset (heap[pos := heap ! pos])"
    using siftup_loop_props[OF p refl] by auto
  have "mset (siftup heap pos) = mset ((fst ?r)[snd ?r := heap ! pos])"
    using pr by (simp add: siftup_def Let_def case_prod_unfold mset_siftdown)
  then show ?thesis using pr by simp
qed

lemma mset_heappush: "mset (heappush heap item) = add_mset item (mset heap)"
  by (simp add: heappush_def mset_siftdown)

lemma mset_heappop: "heappop heap = Inr (ev, rest) \<Longrightarrow> mset heap = add_mset ev (mset rest)"
proof -
  assume h: "heappop heap = Inr (ev, rest)"
  then have ne: "heap \<noteq> []" by (auto simp: heappop_def split: if_splits)
  then have hb: "heap = butlast heap @ [last heap]" by simp
  show ?thesis
  proof (cases "butlast heap = []")
    case True
    then show ?thesis using h ne hb by (auto simp: heappop_def Let_def)
  next
    case False
    then have ev: "ev = hd (butlast heap)" and rest: "rest = siftup ((butlast heap)[0 := last heap]) 0"
      using h ne by (auto simp: heappop_def Let_def)
    have "mset rest = mset ((butlast heap)[0 := last heap])"
    proof -
      have "0 < length ((butlast heap)[0 := last heap])" using False by (cases "butlast heap") auto
      then show ?thesis unfolding rest by (rule mset_siftup)
    qed
    also have "\<dots> = add_mset (last heap) (mset (butlast heap) - {#hd (butlast heap)#})"
      using False by (cases "butlast heap") auto
    finally have "add_mset ev (mset rest) = add_mset (last heap) (mset (butlast heap))"
      using False by (simp add: ev)
    also have "\<dots> = mset (butlast heap @ [last heap])" by simp
    also have "\<dots> = mset heap" using hb by simp
    finally show ?thesis by simp
  qed
qed

lemma set_heappush [simp]: "set (heappush heap item) = insert item (set heap)"
  using mset_heappush[of heap item] by (metis set_mset_add_mset_insert set_mset_mset)

section \<open>The sampling of the time series\<close>

lemma time_list_collect_metrics:
  "time_list (collect_metrics st) = time_list st @ [current_time st]"
  by (simp add: time_list_def collect_metrics_time)

lemma process_event_clock:
  assumes "process_event G ev (st\<lparr>event_queue := q, current_time := time ev\<rparr>) = Inr st'"
  shows "current_time st' = time ev \<and> timeseries st' = timeseries st"
  using untouched_process_event[OF assms] by (simp add: untouched_def)

text \<open>
  One pass of the loop on the event \<open>ev\<close>: the time of the event is appended to the
  \<open>time\<close> array and becomes \<open>last_metric_time\<close> when it is \<open>metric_interval\<close> or more after
  \<open>last_metric_time\<close>; otherwise both stay.
\<close>

lemma pass_sample:
  assumes "heappop (event_queue (engine ls)) = Inr (ev, q)" and "loop_body G cb ls = Inr ls'"
  shows "time_list (engine ls') =
           time_list (engine ls) @ (if time ev - last_metric_time ls \<ge> 15 then [time ev] else [])"
    and "last_metric_time ls' = (if time ev - last_metric_time ls \<ge> 15 then time ev else last_metric_time ls)"
proof -
  from assms obtain st where
    pe: "process_event G ev ((engine ls)\<lparr>event_queue := q, current_time := time ev\<rparr>) = Inr st"
    and ls': "ls' = report_progress cb
                (if current_time st - last_metric_time ls \<ge> metric_interval
                 then ls\<lparr>engine := collect_metrics st, last_metric_time := current_time st\<rparr>
                 else ls\<lparr>engine := st\<rparr>)"
    by (auto simp: loop_body_def split: sum.splits)
  note c = process_event_clock[OF pe]
  have t: "time_list st = time_list (engine ls)" using c by (simp add: time_list_def)
  show "time_list (engine ls') =
           time_list (engine ls) @ (if time ev - last_metric_time ls \<ge> 15 then [time ev] else [])"
    using c t by (simp add: ls' metric_interval_def time_list_collect_metrics)
  show "last_metric_time ls' = (if time ev - last_metric_time ls \<ge> 15 then time ev else last_metric_time ls)"
    using c by (simp add: ls' metric_interval_def)
qed

lemma loop_passes_samples:
  "loop_passes n G cb ls = Some (es, ls') \<Longrightarrow>
     time_list (engine ls') = time_list (engine ls) @ sample_times (last_metric_time ls) (map time es)"
proof (induction n arbitrary: ls es)
  case 0
  then show ?case by simp
next
  case (Suc n)
  from Suc.prems obtain ev q a es' where
    hp: "heappop (event_queue (engine ls)) = Inr (ev, q)" and lb: "loop_body G cb ls = Inr a"
    and rest: "loop_passes n G cb a = Some (es', ls')" and es: "es = ev # es'"
    by (auto split: sum.splits)
  show ?case
    using Suc.IH[OF rest] pass_sample[OF hp lb] by (simp add: es)
qed

text \<open>The \<open>time\<close> key, once there, holds a sample.\<close>

lemma time_key_loop_body:
  assumes "map_of (timeseries (engine ls)) ''time'' \<noteq> Some []" and "loop_body G cb ls = Inr ls'"
  shows "map_of (timeseries (engine ls')) ''time'' \<noteq> Some []"
proof -
  from assms(2) obtain ev q st where
    pe: "process_event G ev ((engine ls)\<lparr>event_queue := q, current_time := time ev\<rparr>) = Inr st"
    and e: "engine ls' = st \<or> engine ls' = collect_metrics st"
    by (rule loop_body_cases)
  have "timeseries st = timeseries (engine ls)" using process_event_clock[OF pe] by simp
  then show ?thesis using e assms(1) by (auto simp: collect_metrics_time)
qed

text \<open>
  Claim C7, as the code has it. The \<open>time\<close> array of the result of a run is what the
  sampling rule selects from the times of the events the loop processed, in the order it
  processed them: an event is sampled exactly when its time is 15 minutes or more after
  the previous sample (after 0 for the first). The key is missing when nothing was
  sampled. So the array is strictly increasing, consecutive entries differ by at least
  15 minutes and no entry is below 15; they need not differ by exactly 15.
\<close>

theorem time_samples_follow_sampling_rule:
  assumes "run G cb w (SimulationEngine_init G ps seed) = Some (Inr (res, st, w'))"
  shows "(\<exists>st0 n es ls.
            generate_arrivals G (SimulationEngine_init G ps seed) = Some (Inr st0)
            \<and> loop_passes n G cb (loop_start st0 w) = Some (es, ls)
            \<and> engine ls = st \<and> event_queue st = []
            \<and> map_of (res_timeseries res) ''time'' =
                (if sample_times 0 (map time es) = [] then None else Some (sample_times 0 (map time es))))
       \<and> (\<forall>ts. map_of (res_timeseries res) ''time'' = Some ts \<longrightarrow>
             sorted_wrt (<) ts \<and> (\<forall>i. Suc i < length ts \<longrightarrow> 15 \<le> ts ! Suc i - ts ! i)
             \<and> (\<forall>t \<in> set ts. 15 \<le> t))"
proof -
  from assms obtain st1 ls where ga: "generate_arrivals G (SimulationEngine_init G ps seed) = Some (Inr st1)"
    and ml: "main_loop G cb (loop_start st1 w) = Some (Inr ls)"
    and res: "res = calculate_results (engine ls)" and st: "st = engine ls"
    by (rule run_cases)
  have ts0: "timeseries st1 = []"
    using untouched_generate_arrivals[OF ga] by (simp add: untouched_def init_fields)
  from main_loop_passes[OF ml] obtain n es where
    lp: "loop_passes n G cb (loop_start st1 w) = Some (es, ls)" and q: "event_queue (engine ls) = []"
    by blast
  have tl: "time_list (engine ls) = sample_times 0 (map time es)"
    using loop_passes_samples[OF lp] ts0 by (simp add: loop_start_def time_list_def)
  have k0: "map_of (timeseries (engine (loop_start st1 w))) ''time'' \<noteq> Some []"
    by (simp add: loop_start_def ts0)
  have k: "map_of (timeseries (engine ls)) ''time'' \<noteq> Some []"
    using loop_passes_reaches[OF lp] k0
    by (rule run_reaches_invariant[where I = "\<lambda>l. map_of (timeseries (engine l)) ''time'' \<noteq> Some []"])
       (rule time_key_loop_body)
  have m: "map_of (res_timeseries res) ''time'' =
             (if sample_times 0 (map time es) = [] then None else Some (sample_times 0 (map time es)))"
    using tl k by (auto simp: res res_timeseries_time time_list_def split: option.splits)
  have ex: "\<exists>st0 n es ls.
            generate_arrivals G (SimulationEngine_init G ps seed) = Some (Inr st0)
            \<and> loop_passes n G cb (loop_start st0 w) = Some (es, ls)
            \<and> engine ls = st \<and> event_queue st = []
            \<and> map_of (res_timeseries res) ''time'' =
                (if sample_times 0 (map time es) = [] then None else Some (sample_times 0 (map time es)))"
    using ga lp q m st by blast
  have i0: "samples_spaced (loop_start st1 w)"
    using ts0 by (simp add: samples_spaced_def loop_start_def)
  have "run_reaches G cb (loop_start st1 w) ls" using main_loop_reaches[OF ml] by simp
  then have sp: "samples_spaced ls"
    using i0 by (rule run_reaches_invariant) (rule samples_spaced_loop_body)
  have gaps: "sorted_wrt (<) ts \<and> (\<forall>i. Suc i < length ts \<longrightarrow> 15 \<le> ts ! Suc i - ts ! i)
             \<and> (\<forall>t \<in> set ts. 15 \<le> t)"
    if a: "map_of (res_timeseries res) ''time'' = Some ts" for ts
  proof -
    have s: "successively (\<lambda>a b. a + 15 \<le> b) (0 # ts)"
      using sp a by (simp add: res res_timeseries_time samples_spaced_def)
    have 1: "sorted_wrt (<) (0 # ts)" using s by (rule successively_gap_sorted)
    have 2: "\<forall>i. Suc i < length ts \<longrightarrow> 15 \<le> ts ! Suc i - ts ! i"
    proof (intro allI impI)
      fix i assume "Suc i < length ts"
      then have "(0 # ts) ! (Suc i) + 15 \<le> (0 # ts) ! Suc (Suc i)"
        using successively_gap_nth[OF s, of "Suc i"] by simp
      then show "15 \<le> ts ! Suc i - ts ! i" by simp
    qed
    have 3: "\<forall>t \<in> set ts. 15 \<le> t"
    proof
      fix t assume "t \<in> set ts"
      then obtain i where i: "i < length ts" "t = ts ! i" by (auto simp: in_set_conv_nth)
      have "15 \<le> ts ! i" using i(1)
      proof (induction i)
        case 0
        then show ?case using successively_gap_nth[OF s, of 0] by simp
      next
        case (Suc i)
        then have "15 \<le> ts ! i" and "15 \<le> ts ! Suc i - ts ! i" using 2 by auto
        then show ?case by linarith
      qed
      then show "15 \<le> t" using i by simp
    qed
    show ?thesis using 1 2 3 by simp
  qed
  show ?thesis using ex gaps by blast
qed

lemma time_array_SomeD:
  "time_array r = Some ts \<Longrightarrow> \<exists>res st w'. r = Some (Inr (res, st, w')) \<and> map_of (res_timeseries res) ''time'' = Some ts"
  by (auto simp: time_array_def split: option.splits sum.splits)

text \<open>
  The statement at the run with one late patient. The loop makes four passes, on events
  at minutes 1435, 1440, 1455 and 1475; the one at 1440 comes 5 minutes after a sample
  and is not sampled, so the samples are 20 minutes apart.
\<close>

theorem time_samples_follow_sampling_rule_witness:
  "time_array (run late_arrival_generator None () (SimulationEngine_init late_arrival_generator sample_parameters 42))
     = Some [1435, 1455, 1475]
   \<and> (case generate_arrivals late_arrival_generator (SimulationEngine_init late_arrival_generator sample_parameters 42) of
        Some (Inr st0) \<Rightarrow>
          (case loop_passes 4 late_arrival_generator None (loop_start st0 ()) of
             Some (es, ls) \<Rightarrow>
               map time es = [1435, 1440, 1455, 1475] \<and> event_queue (engine ls) = []
               \<and> sample_times 0 (map time es) = [1435, 1455, 1475]
           | None \<Rightarrow> False)
      | _ \<Rightarrow> False)
   \<and> sorted_wrt (<) [1435, 1455, 1475 :: real]
   \<and> 15 \<le> [1435, 1455, 1475 :: real] ! Suc 0 - [1435, 1455, 1475] ! 0
   \<and> 15 \<le> [1435, 1455, 1475 :: real] ! Suc 1 - [1435, 1455, 1475] ! 1"
proof -
  let ?G = late_arrival_generator
  let ?i = "SimulationEngine_init ?G sample_parameters 42"
  have t: "time_array (run ?G None () ?i) = Some [1435, 1455, 1475]"
    by code_simp
  then obtain res st w' where
    r: "run ?G None () ?i = Some (Inr (res, st, w'))"
    and m: "map_of (res_timeseries res) ''time'' = Some [1435, 1455, 1475]"
    using time_array_SomeD by blast
  have c: "(case generate_arrivals ?G ?i of
        Some (Inr st0) \<Rightarrow>
          (case loop_passes 4 ?G None (loop_start st0 ()) of
             Some (es, ls) \<Rightarrow> map time es = [1435, 1440, 1455, 1475] \<and> event_queue (engine ls) = []
           | None \<Rightarrow> False)
      | _ \<Rightarrow> False)"
    by code_simp
  then obtain st0 es ls where ga: "generate_arrivals ?G ?i = Some (Inr st0)"
    and lp: "loop_passes 4 ?G None (loop_start st0 ()) = Some (es, ls)"
    by (auto split: option.splits sum.splits)
  have c': "map time es = [1435, 1440, 1455, 1475] \<and> event_queue (engine ls) = []"
    using c by (simp only: ga lp option.case sum.case prod.case)
  note rule15 = time_samples_follow_sampling_rule[OF r]
  from rule15 obtain st0' n es' ls' where
    ga': "generate_arrivals ?G ?i = Some (Inr st0')"
    and lp': "loop_passes n ?G None (loop_start st0' ()) = Some (es', ls')"
    and e': "engine ls' = st" "event_queue st = []"
    and m': "map_of (res_timeseries res) ''time'' =
                (if sample_times 0 (map time es') = [] then None else Some (sample_times 0 (map time es')))"
    by blast
  have s0: "st0' = st0" using ga ga' by simp
  have "es = es'"
    using loop_passes_end_unique[OF lp _ lp'[unfolded s0]] c' e' by simp
  then have s: "sample_times 0 (map time es) = [1435, 1455, 1475]"
    using m m' by (simp split: if_splits)
  have g: "sorted_wrt (<) [1435, 1455, 1475 :: real]
     \<and> (\<forall>i. Suc i < length [1435, 1455, 1475 :: real] \<longrightarrow> 15 \<le> [1435, 1455, 1475 :: real] ! Suc i - [1435, 1455, 1475] ! i)
     \<and> (\<forall>t \<in> set [1435, 1455, 1475 :: real]. 15 \<le> t)"
    using rule15 m by blast
  have g0: "15 \<le> [1435, 1455, 1475 :: real] ! Suc 0 - [1435, 1455, 1475] ! 0"
    using g by simp
  have g1: "15 \<le> [1435, 1455, 1475 :: real] ! Suc 1 - [1435, 1455, 1475] ! 1"
    using g by simp
  have p: "map time es = [1435, 1440, 1455, 1475] \<and> event_queue (engine ls) = []
           \<and> sample_times 0 (map time es) = [1435, 1455, 1475]"
    using c' s by blast
  have e: "(case generate_arrivals ?G ?i of
        Some (Inr st0) \<Rightarrow>
          (case loop_passes 4 ?G None (loop_start st0 ()) of
             Some (es, ls) \<Rightarrow>
               map time es = [1435, 1440, 1455, 1475] \<and> event_queue (engine ls) = []
               \<and> sample_times 0 (map time es) = [1435, 1455, 1475]
           | None \<Rightarrow> False)
      | _ \<Rightarrow> False)
     \<longleftrightarrow> (map time es = [1435, 1440, 1455, 1475] \<and> event_queue (engine ls) = []
           \<and> sample_times 0 (map time es) = [1435, 1455, 1475])"
    by (simp only: ga lp option.case sum.case prod.case)
  have p': "(case generate_arrivals ?G ?i of
        Some (Inr st0) \<Rightarrow>
          (case loop_passes 4 ?G None (loop_start st0 ()) of
             Some (es, ls) \<Rightarrow>
               map time es = [1435, 1440, 1455, 1475] \<and> event_queue (engine ls) = []
               \<and> sample_times 0 (map time es) = [1435, 1455, 1475]
           | None \<Rightarrow> False)
      | _ \<Rightarrow> False)"
    unfolding e by (rule p)
  show ?thesis using t p' g g0 g1 by blast
qed

text \<open>
  Claim C7 as stated fails: in that run the first sample is at minute 1435 and the next
  at 1455, 20 minutes later.
\<close>

theorem time_samples_not_every_15_counterexample:
  "time_array (run late_arrival_generator None () (SimulationEngine_init late_arrival_generator sample_parameters 42))
     = Some [1435, 1455, 1475]
   \<and> (1455 :: real) - 1435 \<noteq> 15"
  by code_simp
section \<open>Outcomes come from discharges\<close>

lemma later_patient_refl [simp]: "later_patient p p"
  by (simp add: later_patient_def)

lemma later_patient_trans: "later_patient a b \<Longrightarrow> later_patient b c \<Longrightarrow> later_patient a c"
  by (auto simp: later_patient_def)

lemma pat_step_refl [simp]: "pat_step ps ps"
  by (simp add: pat_step_def option.rel_refl)

lemma pat_step_trans: "pat_step a b \<Longrightarrow> pat_step b c \<Longrightarrow> pat_step a c"
  unfolding pat_step_def
proof (intro allI)
  fix k
  assume ab: "\<forall>k. rel_option later_patient (map_of a k) (map_of b k)"
    and bc: "\<forall>k. rel_option later_patient (map_of b k) (map_of c k)"
  show "rel_option later_patient (map_of a k) (map_of c k)"
    using ab[rule_format, of k] bc[rule_format, of k]
    by (cases "map_of a k"; cases "map_of b k"; cases "map_of c k") (auto intro: later_patient_trans)
qed

lemma pat_step_update:
  "map_of ps k = Some p \<Longrightarrow> later_patient p p' \<Longrightarrow> pat_step ps (AList.update k p' ps)"
  by (auto simp: pat_step_def update_conv' option.rel_refl)

lemma pat_step_Some:
  "pat_step ps ps' \<Longrightarrow> map_of ps k = Some p \<Longrightarrow> \<exists>p'. map_of ps' k = Some p' \<and> later_patient p p'"
  unfolding pat_step_def by (metis option.rel_inject(2) option.rel_sel option.sel option.simps(3) option_rel_Some1)

lemma pat_step_None: "pat_step ps ps' \<Longrightarrow> map_of ps k = None \<Longrightarrow> map_of ps' k = None"
  unfolding pat_step_def by (metis rel_option_None1)

lemma pat_step_Some_rev:
  "pat_step ps ps' \<Longrightarrow> map_of ps' k = Some p' \<Longrightarrow> \<exists>p. map_of ps k = Some p \<and> later_patient p p'"
  unfolding pat_step_def by (metis option_rel_Some2)

lemma event_ok_mono: "pat_step ps ps' \<Longrightarrow> event_ok ps e \<Longrightarrow> event_ok ps' e"
  unfolding event_ok_def
  by (auto dest: pat_step_Some pat_step_None simp: later_patient_def)

lemma outcome_ok_mono: "pat_step ps ps' \<Longrightarrow> outcome_ok ps oc \<Longrightarrow> outcome_ok ps' oc"
  unfolding outcome_ok_def
  by (auto dest!: pat_step_Some simp: later_patient_def)

lemma grows_refl [simp]: "grows st st"
  by (simp add: grows_def)

lemma grows_trans: "grows a b \<Longrightarrow> grows b c \<Longrightarrow> grows a c"
  unfolding grows_def
  by (auto intro: pat_step_trans dest: event_ok_mono outcome_ok_mono)

lemma grows_fields:
  "pat_step (patients st) (patients st') \<Longrightarrow> event_queue st' = event_queue st
     \<Longrightarrow> patient_outcomes st' = patient_outcomes st \<Longrightarrow> grows st st'"
  by (simp add: grows_def)

lemma grows_same_right:
  "grows a b \<Longrightarrow> patients c = patients b \<Longrightarrow> event_queue c = event_queue b
     \<Longrightarrow> patient_outcomes c = patient_outcomes b \<Longrightarrow> grows a c"
  by (simp add: grows_def)

lemma grows_same_left:
  "grows b c \<Longrightarrow> patients a = patients b \<Longrightarrow> event_queue a = event_queue b
     \<Longrightarrow> patient_outcomes a = patient_outcomes b \<Longrightarrow> grows a c"
  by (simp add: grows_def)

lemma arrival_ids_heappush:
  "arrival_ids (heappush q e) = (if event_type e = ARRIVAL then add_mset (entity_id e) (arrival_ids q) else arrival_ids q)"
  by (simp add: arrival_ids_def mset_heappush)

lemma grows_schedule_event:
  "event_type e \<noteq> ARRIVAL \<Longrightarrow> event_ok (patients st) e \<Longrightarrow> grows st (schedule_event e st)"
  by (simp add: grows_def schedule_event_def arrival_ids_heappush)

lemma outcomes_inv_grows:
  assumes "outcomes_inv st" and "grows st st'"
  shows "outcomes_inv st'"
proof -
  have ps: "pat_step (patients st) (patients st')" using assms(2) by (simp add: grows_def)
  have 1: "\<forall>oc \<in> set (patient_outcomes st'). outcome_ok (patients st') oc"
    using assms outcome_ok_mono[OF ps] by (auto simp: grows_def outcomes_inv_def)
  have 2: "\<forall>e \<in> set (event_queue st'). event_ok (patients st') e"
    using assms event_ok_mono[OF ps] by (auto simp: grows_def outcomes_inv_def)
  have 3: "\<forall>x. count (arrival_ids (event_queue st')) x \<le> 1"
    using assms by (simp add: grows_def outcomes_inv_def)
  have 4: "\<forall>k p. map_of (patients st') k = Some p \<longrightarrow> p_id p = k"
  proof (intro allI impI)
    fix k p' assume "map_of (patients st') k = Some p'"
    then obtain p where "map_of (patients st) k = Some p" "later_patient p p'"
      using pat_step_Some_rev[OF ps] by blast
    then show "p_id p' = k" using assms(1) by (auto simp: outcomes_inv_def later_patient_def)
  qed
  show ?thesis using 1 2 3 4 by (simp add: outcomes_inv_def)
qed

lemma grows_assign_nurse:
  assumes "map_of (patients st) pk = Some p"
  shows "grows st (snd (assign_nurse pk p t st))"
proof (cases "foldl nurse_scan None (nurses st)")
  case None
  then show ?thesis by (simp add: assign_nurse_def grows_def)
next
  case (Some a)
  obtain nk bn l where a: "a = (nk, bn, l)" by (cases a)
  have "later_patient p (p\<lparr>nurse_id := Some (n_id bn)\<rparr>)"
    by (simp add: later_patient_def bedded_def settled_def)
  then have "pat_step (patients st) (AList.update pk (p\<lparr>nurse_id := Some (n_id bn)\<rparr>) (patients st))"
    using assms by (rule pat_step_update[rotated])
  then show ?thesis using Some a by (simp add: assign_nurse_def Let_def grows_def)
qed

lemma assign_nurse_stored:
  "map_of (patients st) pk = Some p \<Longrightarrow>
     map_of (patients (snd (assign_nurse pk p t st))) pk = Some (fst (assign_nurse pk p t st))
     \<and> later_patient p (fst (assign_nurse pk p t st))
     \<and> requires_imaging (fst (assign_nurse pk p t st)) = requires_imaging p
     \<and> (bedded p \<longrightarrow> bedded (fst (assign_nurse pk p t st)))"
  by (auto simp: assign_nurse_def Let_def update_conv' later_patient_def bedded_def settled_def
      split: option.splits prod.splits)

lemma grows_assign_bed:
  assumes p: "map_of (patients st) pk = Some p" and id: "p_id p = pk"
  shows "grows st (assign_bed G pk p bk b t st)"
proof -
  let ?p1 = "p\<lparr>bed_id := Some (b_id b), bed_assigned_time := Some t\<rparr>"
  let ?st1 = "st\<lparr>beds := AList.update bk (b\<lparr>is_occupied := True, patient_id := Some (p_id p)\<rparr>) (beds st),
                   patients := AList.update pk ?p1 (patients st)\<rparr>"
  let ?an = "assign_nurse pk ?p1 t ?st1"
  let ?p2 = "fst ?an" and ?st2 = "snd ?an"
  let ?e1 = "\<lparr>time = t + of_int (fst (rng_integers G 15 45 (rng ?st2))), event_type = IMAGING_REQUEST,
               entity_id = p_id ?p2, data = NoData\<rparr>"
  let ?st3 = "(if requires_imaging ?p2 then schedule_event ?e1 (?st2\<lparr>rng := snd (rng_integers G 15 45 (rng ?st2))\<rparr>) else ?st2)"
  let ?li = "rng_integers G (fst (los_range (acuity ?p2))) (snd (los_range (acuity ?p2))) (rng ?st3)"
  let ?st4 = "?st3\<lparr>rng := snd ?li\<rparr>"
  let ?e2 = "\<lparr>time = t + of_int (fst ?li), event_type = DISCHARGE, entity_id = p_id ?p2, data = NoData\<rparr>"
  have lp: "later_patient p ?p1" by (simp add: later_patient_def bedded_def settled_def)
  have g1: "grows st ?st1"
    by (rule grows_fields) (simp_all add: pat_step_update[OF p lp])
  have s1: "map_of (patients ?st1) pk = Some ?p1" by (simp add: update_conv')
  have g2: "grows ?st1 ?st2" using s1 by (rule grows_assign_nurse)
  have s2: "map_of (patients ?st2) pk = Some ?p2" "bedded ?p2" "p_id ?p2 = pk"
    using assign_nurse_stored[OF s1, of t] id by (auto simp: bedded_def later_patient_def)
  have g3: "grows ?st2 ?st3"
  proof (cases "requires_imaging ?p2")
    case False
    then show ?thesis by simp
  next
    case True
    have "grows (?st2\<lparr>rng := snd (rng_integers G 15 45 (rng ?st2))\<rparr>)
            (schedule_event ?e1 (?st2\<lparr>rng := snd (rng_integers G 15 45 (rng ?st2))\<rparr>))"
      by (rule grows_schedule_event) (simp_all add: event_ok_def)
    then have "grows ?st2 (schedule_event ?e1 (?st2\<lparr>rng := snd (rng_integers G 15 45 (rng ?st2))\<rparr>))"
      by (rule grows_same_left) simp_all
    then show ?thesis using True by simp
  qed
  have g4: "grows ?st3 ?st4" by (rule grows_fields) simp_all
  have g14: "grows st ?st4" using g1 g2 g3 g4 by (blast intro: grows_trans)
  have s4: "map_of (patients ?st4) pk = Some ?p2"
    using s2(1) by (simp add: schedule_event_def)
  have g5: "t + of_int (fst ?li) < end_time \<Longrightarrow> grows ?st4 (schedule_event ?e2 ?st4)"
    by (rule grows_schedule_event) (use s4 s2 in \<open>auto simp: event_ok_def\<close>)
  have eq: "assign_bed G pk p bk b t st = (if t + of_int (fst ?li) < end_time then schedule_event ?e2 ?st4 else ?st4)"
    by (simp add: assign_bed_def Let_def case_prod_unfold)
  show ?thesis
    unfolding eq using g14 g5 by (auto intro: grows_trans)
qed

lemma grows_request_bed:
  assumes "request_bed G pid t st = Inr st'"
    and ids: "\<And>k p. map_of (patients st) k = Some p \<Longrightarrow> p_id p = k"
  shows "grows st st'"
proof -
  from assms(1) obtain p where p: "map_of (patients st) pid = Some p"
    by (auto simp: request_bed_def split: option.splits)
  show ?thesis
  proof (cases "find (bed_available t) (beds st)")
    case None
    then have "st' = st\<lparr>bed_queue := bed_queue st @ [pid],
                          bottleneck_events := bottleneck_events st @
                            [\<lparr>bn_time = t, constraint = ''bed_availability'', bn_patient_id = pid,
                              queue_length = Some (length (bed_queue st @ [pid])), description = None\<rparr>]\<rparr>"
      using assms(1) p by (simp add: request_bed_def Let_def)
    then show ?thesis by (simp add: grows_def)
  next
    case (Some kb)
    then have "st' = assign_bed G pid p (fst kb) (snd kb) t st"
      using assms(1) p by (simp add: request_bed_def case_prod_unfold)
    then show ?thesis using grows_assign_bed[OF p ids[OF p]] by simp
  qed
qed

lemma grows_handle_triage_end:
  assumes "handle_triage_end G e st = Inr st'"
    and ids: "\<And>k p. map_of (patients st) k = Some p \<Longrightarrow> p_id p = k"
  shows "grows st st'"
proof -
  from assms(1) obtain p where p: "map_of (patients st) (entity_id e) = Some p"
    and r: "request_bed G (p_id (p\<lparr>triage_time := Some (time e)\<rparr>)) (time e)
              (st\<lparr>patients := AList.update (entity_id e) (p\<lparr>triage_time := Some (time e)\<rparr>) (patients st)\<rparr>) = Inr st'"
    by (auto simp: handle_triage_end_def Let_def split: option.splits)
  let ?sa = "st\<lparr>patients := AList.update (entity_id e) (p\<lparr>triage_time := Some (time e)\<rparr>) (patients st)\<rparr>"
  have lp: "later_patient p (p\<lparr>triage_time := Some (time e)\<rparr>)"
    by (simp add: later_patient_def bedded_def settled_def)
  have g1: "grows st ?sa"
    by (rule grows_fields) (simp_all add: pat_step_update[OF p lp])
  have ids': "\<And>k q. map_of (patients ?sa) k = Some q \<Longrightarrow> p_id q = k"
    using ids p by (auto simp: update_conv' split: if_splits)
  have "grows ?sa st'" using r ids' by (rule grows_request_bed)
  then show ?thesis using g1 by (blast intro: grows_trans)
qed

lemma grows_handle_imaging_request:
  assumes "handle_imaging_request G e st = Inr st'"
  shows "grows st st'"
proof (cases "imaging_in_use st < imaging_capacity st")
  case False
  then have "st' = st\<lparr>imaging_queue := imaging_queue st @ [entity_id e],
                   bottleneck_events := bottleneck_events st @
                     [\<lparr>bn_time = time e, constraint = ''imaging_capacity'', bn_patient_id = entity_id e,
                       queue_length = Some (length (imaging_queue st @ [entity_id e])), description = None\<rparr>]\<rparr>"
    using assms by (simp add: handle_imaging_request_def Let_def)
  then show ?thesis by (simp add: grows_def)
next
  case True
  let ?d = "rng_integers G 20 60 (rng st)"
  let ?ev = "\<lparr>time = time e + of_int (fst ?d), event_type = IMAGING_END, entity_id = entity_id e, data = NoData\<rparr>"
  let ?s0 = "st\<lparr>imaging_in_use := imaging_in_use st + 1, rng := snd ?d\<rparr>"
  let ?s1 = "schedule_event ?ev ?s0"
  from assms True obtain p where p: "map_of (patients ?s1) (entity_id e) = Some p"
    and st': "st' = ?s1\<lparr>patients := AList.update (entity_id e) (p\<lparr>imaging_start_time := Some (time e)\<rparr>) (patients ?s1)\<rparr>"
    by (auto simp: handle_imaging_request_def Let_def case_prod_unfold split: option.splits)
  have "grows ?s0 ?s1" by (rule grows_schedule_event) (simp_all add: event_ok_def)
  then have g1: "grows st ?s1" by (rule grows_same_left) simp_all
  have lp: "later_patient p (p\<lparr>imaging_start_time := Some (time e)\<rparr>)"
    by (simp add: later_patient_def bedded_def settled_def)
  have p': "map_of (patients st) (entity_id e) = Some p" using p by simp
  have "grows ?s1 st'"
    unfolding st' by (rule grows_fields) (simp_all add: pat_step_update[OF p' lp])
  then show ?thesis using g1 by (blast intro: grows_trans)
qed

lemma grows_handle_imaging_end:
  assumes "handle_imaging_end G e st = Inr st'"
  shows "grows st st'"
proof -
  from assms obtain p where p: "map_of (patients st) (entity_id e) = Some p"
    by (auto simp: handle_imaging_end_def split: option.splits)
  let ?s1 = "st\<lparr>patients := AList.update (entity_id e) (p\<lparr>imaging_end_time := Some (time e)\<rparr>) (patients st),
                  imaging_in_use := imaging_in_use st - 1\<rparr>"
  have lp: "later_patient p (p\<lparr>imaging_end_time := Some (time e)\<rparr>)"
    by (simp add: later_patient_def bedded_def settled_def)
  have g1: "grows st ?s1"
    by (rule grows_fields) (simp_all add: pat_step_update[OF p lp])
  show ?thesis
  proof (cases "imaging_queue st")
    case Nil
    then have "st' = ?s1" using assms p by (simp add: handle_imaging_end_def Let_def)
    then show ?thesis using g1 by simp
  next
    case (Cons n waiting)
    let ?d = "rng_integers G 20 60 (rng ?s1)"
    let ?ev = "\<lparr>time = time e + of_int (fst ?d), event_type = IMAGING_END, entity_id = n, data = NoData\<rparr>"
    let ?s2a = "?s1\<lparr>imaging_queue := waiting, imaging_in_use := imaging_in_use ?s1 + 1, rng := snd ?d\<rparr>"
    let ?s2 = "schedule_event ?ev ?s2a"
    from assms p Cons obtain q where q: "map_of (patients ?s2) n = Some q"
      and st': "st' = ?s2\<lparr>patients := AList.update n (q\<lparr>imaging_start_time := Some (time e)\<rparr>) (patients ?s2)\<rparr>"
      by (auto simp: handle_imaging_end_def Let_def case_prod_unfold split: option.splits)
    have "grows ?s2a ?s2" by (rule grows_schedule_event) (simp_all add: event_ok_def)
    then have g2: "grows ?s1 ?s2" by (rule grows_same_left) simp_all
    have lq: "later_patient q (q\<lparr>imaging_start_time := Some (time e)\<rparr>)"
      by (simp add: later_patient_def bedded_def settled_def)
    have q': "map_of (AList.update (entity_id e) (p\<lparr>imaging_end_time := Some (time e)\<rparr>) (patients st)) n = Some q"
      using q by simp
    have "grows ?s2 st'"
      unfolding st' by (rule grows_fields) (simp_all add: pat_step_update[OF q' lq])
    then show ?thesis using g1 g2 by (blast intro: grows_trans)
  qed
qed

lemma grows_free_bed:
  assumes "free_bed G e p st = Inr st'"
  shows "grows st st'"
proof -
  consider (same) "st' = st"
    | (clean) bk bed where "st' = schedule_event
                           \<lparr>time = time e + of_int (fst (rng_integers G 15 30 (rng st))), event_type = CLEANING_END,
                            entity_id = bk, data = BedData bk\<rparr>
                           (st\<lparr>beds := AList.update bk
                                           (bed\<lparr>is_occupied := False, is_cleaning := True, patient_id := None\<rparr>)
                                           (beds st),
                               rng := snd (rng_integers G 15 30 (rng st))\<rparr>)"
    using assms by (auto simp: free_bed_def Let_def case_prod_unfold split: option.splits if_splits)
  then show ?thesis
  proof cases
    case same
    then show ?thesis by simp
  next
    case (clean bk bed)
    let ?s0 = "st\<lparr>beds := AList.update bk (bed\<lparr>is_occupied := False, is_cleaning := True, patient_id := None\<rparr>) (beds st),
                    rng := snd (rng_integers G 15 30 (rng st))\<rparr>"
    have "grows ?s0 st'" unfolding clean by (rule grows_schedule_event) (simp_all add: event_ok_def)
    then show ?thesis by (rule grows_same_left) simp_all
  qed
qed

lemma grows_free_nurse:
  assumes "free_nurse p st = Inr st'"
  shows "grows st st'"
proof -
  have "patients st' = patients st \<and> event_queue st' = event_queue st \<and> patient_outcomes st' = patient_outcomes st"
    using assms by (auto simp: free_nurse_def split: option.splits if_splits)
  then show ?thesis by (simp add: grows_def)
qed

lemma grows_handle_discharge:
  assumes "handle_discharge G e st = Inr st'"
    and ok: "time e < end_time" "\<exists>p. map_of (patients st) (entity_id e) = Some p \<and> bedded p"
    and ids: "\<And>k p. map_of (patients st) k = Some p \<Longrightarrow> p_id p = k"
  shows "grows st st'"
proof -
  from assms(1) obtain p0 st2 st3 where p0: "map_of (patients st) (entity_id e) = Some p0"
    and fb: "free_bed G e (p0\<lparr>discharge_time := Some (time e)\<rparr>)
           (st\<lparr>patients := AList.update (entity_id e) (p0\<lparr>discharge_time := Some (time e)\<rparr>) (patients st)\<rparr>) = Inr st2"
    and fn: "free_nurse (p0\<lparr>discharge_time := Some (time e)\<rparr>) st2 = Inr st3"
    and st': "st' = st3\<lparr>patient_outcomes := patient_outcomes st3 @ [outcome_of (p0\<lparr>discharge_time := Some (time e)\<rparr>)]\<rparr>"
    by (auto simp: handle_discharge_def Let_def split: option.splits sum.splits)
  let ?p = "p0\<lparr>discharge_time := Some (time e)\<rparr>"
  let ?s1 = "st\<lparr>patients := AList.update (entity_id e) ?p (patients st)\<rparr>"
  have b0: "bedded p0" using ok(2) p0 by simp
  have sp: "settled ?p" using b0 ok(1) by (simp add: settled_def bedded_def)
  have lp: "later_patient p0 ?p" using sp by (simp add: later_patient_def bedded_def)
  have g1: "grows st ?s1" by (rule grows_fields) (simp_all add: pat_step_update[OF p0 lp])
  have g13: "grows ?s1 st3" using grows_free_bed[OF fb] grows_free_nurse[OF fn] by (blast intro: grows_trans)
  have s1: "map_of (patients ?s1) (entity_id e) = Some ?p" by (simp add: update_conv')
  obtain p3 where p3: "map_of (patients st3) (entity_id e) = Some p3" "later_patient ?p p3"
    using pat_step_Some[OF _ s1, of "patients st3"] g13 by (auto simp: grows_def)
  have "outcome_ok (patients st3) (outcome_of ?p)"
    using p3 sp ids[OF p0] by (auto simp: outcome_ok_def outcome_of_def later_patient_def)
  then have "grows st3 st'" by (simp add: st' grows_def)
  then show ?thesis using g1 g13 by (blast intro: grows_trans)
qed

lemma grows_handle_cleaning_end:
  assumes "handle_cleaning_end G e st = Inr st'"
    and ids: "\<And>k p. map_of (patients st) k = Some p \<Longrightarrow> p_id p = k"
  shows "grows st st'"
proof -
  from assms(1) obtain bk bed0 where bd: "data e = BedData bk" "map_of (beds st) bk = Some bed0"
    by (auto simp: handle_cleaning_end_def split: event_data.splits option.splits)
  let ?bed = "bed0\<lparr>is_cleaning := False, available_at := time e\<rparr>"
  let ?s1 = "st\<lparr>beds := AList.update bk ?bed (beds st)\<rparr>"
  have g1: "grows st ?s1" by (simp add: grows_def)
  show ?thesis
  proof (cases "bed_queue st")
    case Nil
    then have "st' = ?s1" using assms(1) bd by (simp add: handle_cleaning_end_def Let_def)
    then show ?thesis using g1 by simp
  next
    case (Cons pid waiting)
    then obtain p where p: "map_of (patients st) pid = Some p"
      and st': "st' = assign_bed G pid p bk ?bed (time e) (?s1\<lparr>bed_queue := waiting\<rparr>)"
      using assms(1) bd by (auto simp: handle_cleaning_end_def Let_def split: option.splits)
    have "grows (?s1\<lparr>bed_queue := waiting\<rparr>) st'"
      unfolding st' by (rule grows_assign_bed) (use p ids in auto)
    then show ?thesis by (rule grows_same_left) simp_all
  qed
qed

lemma grows_process_event:
  assumes "process_event G e st = Inr st'" and "event_type e \<noteq> ARRIVAL"
    and "event_ok (patients st) e"
    and ids: "\<And>k p. map_of (patients st) k = Some p \<Longrightarrow> p_id p = k"
  shows "grows st st'"
proof (cases "event_type e")
  case DISCHARGE
  then show ?thesis
    using assms by (intro grows_handle_discharge[of G e st st']) (auto simp: process_event_def event_ok_def)
qed (use assms in \<open>auto simp: process_event_def
      intro: grows_handle_triage_end grows_handle_imaging_request grows_handle_imaging_end grows_handle_cleaning_end\<close>)

lemma arrival_ids_mem: "count (arrival_ids q) x > 0 \<Longrightarrow> \<exists>e \<in> set q. event_type e = ARRIVAL \<and> entity_id e = x"
  by (auto simp: arrival_ids_def simp flip: not_in_iff dest!: count_inI)

lemma arrival_ids_count_pos: "e \<in> set q \<Longrightarrow> event_type e = ARRIVAL \<Longrightarrow> count (arrival_ids q) (entity_id e) > 0"
  by (auto simp: arrival_ids_def)

lemma arrival_ids_heappop:
  "heappop q = Inr (ev, rest) \<Longrightarrow>
     arrival_ids q = (if event_type ev = ARRIVAL then add_mset (entity_id ev) (arrival_ids rest) else arrival_ids rest)"
  by (drule mset_heappop) (simp add: arrival_ids_def)

lemma set_heappop: "heappop q = Inr (ev, rest) \<Longrightarrow> set q = insert ev (set rest)"
  by (drule mset_heappop) (metis set_mset_add_mset_insert set_mset_mset)

lemma outcomes_inv_handle_arrival:
  assumes h: "handle_arrival G ev st = Inr st'"
    and inv: "outcomes_inv st"
    and fresh: "map_of (patients st) (entity_id ev) = None"
    and other: "count (arrival_ids (event_queue st)) (entity_id ev) = 0"
  shows "outcomes_inv st'"
proof -
  from h obtain a ri rc where d: "data ev = ArrivalData a ri rc"
    by (auto simp: handle_arrival_def split: event_data.splits)
  let ?p = "\<lparr>p_id = entity_id ev, acuity = a, arrival_time = time ev,
                 requires_imaging = ri, requires_consult = rc,
                 triage_time = None, bed_assigned_time = None, imaging_start_time = None,
                 imaging_end_time = None, discharge_time = None, bed_id = None, nurse_id = None\<rparr>"
  let ?tr = "\<lparr>time = time ev + of_int (fst (rng_integers G 5 15 (rng st))), event_type = TRIAGE_END,
               entity_id = entity_id ev, data = NoData\<rparr>"
  have ps: "patients st' = AList.update (entity_id ev) ?p (patients st)"
    and q: "event_queue st' = heappush (event_queue st) ?tr"
    and oc: "patient_outcomes st' = patient_outcomes st"
    using h d by (auto simp: handle_arrival_def Let_def case_prod_unfold schedule_event_def)
  have m: "map_of (patients st') k = (if k = entity_id ev then Some ?p else map_of (patients st) k)" for k
    by (simp add: ps update_conv')
  have keep: "map_of (patients st) k = Some p \<Longrightarrow> map_of (patients st') k = Some p" for k p
    using fresh by (auto simp: m)
  have 1: "\<forall>oc \<in> set (patient_outcomes st'). outcome_ok (patients st') oc"
    using inv keep by (auto simp: outcomes_inv_def oc outcome_ok_def)
  have 2: "\<forall>e \<in> set (event_queue st'). event_ok (patients st') e"
  proof
    fix e assume "e \<in> set (event_queue st')"
    then consider "e = ?tr" | "e \<in> set (event_queue st)" by (auto simp: q)
    then show "event_ok (patients st') e"
    proof cases
      case 1
      then show ?thesis by (simp add: event_ok_def)
    next
      case 2
      then have ok: "event_ok (patients st) e" using inv by (simp add: outcomes_inv_def)
      have "entity_id e \<noteq> entity_id ev" if "event_type e = ARRIVAL"
      proof
        assume "entity_id e = entity_id ev"
        then have "count (arrival_ids (event_queue st)) (entity_id ev) > 0"
          using arrival_ids_count_pos[OF 2 that] by simp
        then show False using other by simp
      qed
      then show ?thesis using ok keep fresh by (auto simp: event_ok_def m)
    qed
  qed
  have 3: "\<forall>x. count (arrival_ids (event_queue st')) x \<le> 1"
    using inv by (simp add: outcomes_inv_def q arrival_ids_heappush)
  have 4: "\<forall>k p. map_of (patients st') k = Some p \<longrightarrow> p_id p = k"
    using inv by (auto simp: outcomes_inv_def m split: if_splits)
  show ?thesis using 1 2 3 4 by (simp add: outcomes_inv_def)
qed

lemma outcomes_inv_loop_body:
  assumes inv: "outcomes_inv (engine ls)" and lb: "loop_body G cb ls = Inr ls'"
  shows "outcomes_inv (engine ls')"
proof -
  from lb obtain ev rest st where hp: "heappop (event_queue (engine ls)) = Inr (ev, rest)"
    and pe: "process_event G ev ((engine ls)\<lparr>event_queue := rest, current_time := time ev\<rparr>) = Inr st"
    and e: "engine ls' = st \<or> engine ls' = collect_metrics st"
    by (rule loop_body_cases)
  let ?s0 = "(engine ls)\<lparr>event_queue := rest, current_time := time ev\<rparr>"
  have sq: "set (event_queue (engine ls)) = insert ev (set rest)" using hp by (rule set_heappop)
  have aq: "arrival_ids (event_queue (engine ls))
      = (if event_type ev = ARRIVAL then add_mset (entity_id ev) (arrival_ids rest) else arrival_ids rest)"
    using hp by (rule arrival_ids_heappop)
  have c1: "\<forall>x. count (arrival_ids rest) x \<le> 1"
  proof
    fix x
    have "count (arrival_ids rest) x \<le> count (arrival_ids (event_queue (engine ls))) x"
      by (simp add: aq)
    then show "count (arrival_ids rest) x \<le> 1"
      using inv by (meson le_trans outcomes_inv_def)
  qed
  have evok: "event_ok (patients (engine ls)) ev" using inv sq by (simp add: outcomes_inv_def)
  have inv0: "outcomes_inv ?s0"
    using inv sq c1 by (simp add: outcomes_inv_def)
  have "outcomes_inv st"
  proof (cases "event_type ev = ARRIVAL")
    case False
    have "grows ?s0 st"
      using pe False by (rule grows_process_event) (use evok inv in \<open>auto simp: outcomes_inv_def\<close>)
    then show ?thesis using inv0 outcomes_inv_grows by blast
  next
    case True
    then have h: "handle_arrival G ev ?s0 = Inr st" using pe by (simp add: process_event_def)
    have "count (arrival_ids (event_queue (engine ls))) (entity_id ev) \<le> 1"
      using inv by (simp add: outcomes_inv_def)
    then have z: "count (arrival_ids rest) (entity_id ev) = 0" using True by (simp add: aq)
    have f: "map_of (patients ?s0) (entity_id ev) = None" using evok True by (simp add: event_ok_def)
    show ?thesis
      by (rule outcomes_inv_handle_arrival[OF h inv0 f]) (simp add: z)
  qed
  moreover have "outcomes_inv (collect_metrics st) = outcomes_inv st"
    by (simp add: outcomes_inv_def collect_metrics_def Let_def)
  ultimately show ?thesis using e by auto
qed

lemma arrivals_only_step:
  assumes "arrivals_only st"
  shows "arrival_step G rate mix ca st = Inr (Inl st') \<Longrightarrow> arrivals_only st'"
    and "arrival_step G rate mix ca st = Inr (Inr (ca', st')) \<Longrightarrow> arrivals_only st'"
proof -
  show "arrival_step G rate mix ca st = Inr (Inl st') \<Longrightarrow> arrivals_only st'"
    using assms
    by (auto simp: arrival_step_def Let_def case_prod_unfold arrivals_only_def schedule_event_def
        split: if_splits sum.splits)
next
  assume a: "arrival_step G rate mix ca st = Inr (Inr (ca', st'))"
  then obtain e where q: "event_queue st' = heappush (event_queue st) e"
    and e: "event_type e = ARRIVAL" "entity_id e = patient_counter st + 1"
    and f: "patients st' = patients st" "patient_outcomes st' = patient_outcomes st"
           "patient_counter st' = patient_counter st + 1"
    by (auto simp: arrival_step_def Let_def case_prod_unfold schedule_event_def
        split: if_splits sum.splits)
  have "count (arrival_ids (event_queue st)) (patient_counter st + 1) = 0"
  proof (rule ccontr)
    assume "count (arrival_ids (event_queue st)) (patient_counter st + 1) \<noteq> 0"
    then obtain e' where "e' \<in> set (event_queue st)" "entity_id e' = patient_counter st + 1"
      using arrival_ids_mem[of "event_queue st" "patient_counter st + 1"] by auto
    then show False using assms by (auto simp: arrivals_only_def)
  qed
  then have "\<forall>x. count (arrival_ids (event_queue st')) x \<le> 1"
    using assms e by (auto simp: q arrival_ids_heappush arrivals_only_def)
  moreover have "\<forall>e \<in> set (event_queue st'). event_type e = ARRIVAL \<and> entity_id e \<le> patient_counter st'"
    using assms e f by (auto simp: q arrivals_only_def)
  ultimately show "arrivals_only st'" using assms f by (simp add: arrivals_only_def)
qed

lemma outcomes_inv_generate_arrivals:
  assumes "generate_arrivals G (SimulationEngine_init G ps seed) = Some (Inr st1)"
  shows "outcomes_inv st1"
proof -
  have i: "arrivals_only (SimulationEngine_init G ps seed)"
    by (simp add: arrivals_only_def init_fields arrival_ids_def)
  have "arrivals_only st1"
    by (rule arrivals_loop_invariant[where I = arrivals_only and st = "SimulationEngine_init G ps seed"])
       (use assms i in \<open>auto simp: generate_arrivals_def Let_def dest: arrivals_only_step\<close>)
  then show ?thesis
    by (auto simp: arrivals_only_def outcomes_inv_def event_ok_def)
qed


lemma outcome_metrics:
  "total_patients (res_metrics (calculate_results st)) = length (patient_outcomes st)
       \<and> avg_wait_time_minutes (res_metrics (calculate_results st)) =
           (if List.map_filter wait_time (patient_outcomes st) \<noteq> []
            then mean (List.map_filter wait_time (patient_outcomes st)) else 0)
       \<and> median_wait_time_minutes (res_metrics (calculate_results st)) =
           (if List.map_filter wait_time (patient_outcomes st) \<noteq> []
            then median (List.map_filter wait_time (patient_outcomes st)) else 0)
       \<and> max_wait_time_minutes (res_metrics (calculate_results st)) =
           (if List.map_filter wait_time (patient_outcomes st) \<noteq> []
            then py_max (List.map_filter wait_time (patient_outcomes st)) else 0)
       \<and> avg_los_minutes (res_metrics (calculate_results st)) =
           (if List.map_filter los (patient_outcomes st) \<noteq> []
            then mean (List.map_filter los (patient_outcomes st)) else 0)
       \<and> sla_breaches (res_metrics (calculate_results st)) =
           length (filter (\<lambda>w. w > 60) (List.map_filter wait_time (patient_outcomes st)))"
  by (simp add: calculate_results_def Let_def case_prod_unfold)

text \<open>
  Claim C10. In the result of a run, \<open>total_patients\<close> is the number of outcome records,
  the wait-time and length-of-stay figures are taken over the wait times and stays of the
  outcome records, and \<open>sla_breaches\<close> counts the outcome records whose wait exceeds 60.
  Every outcome record belongs to a patient who got a bed and carries a discharge stamp
  before the end of the horizon; so a patient who never got a bed, or who was not
  discharged by then, has no outcome record and enters none of these figures.
\<close>

theorem outcomes_only_for_discharged:
  assumes "run G cb w (SimulationEngine_init G ps seed) = Some (Inr (res, st, w'))"
  shows "total_patients (res_metrics res) = length (patient_outcomes st)
       \<and> avg_wait_time_minutes (res_metrics res) =
           (if List.map_filter wait_time (patient_outcomes st) \<noteq> []
            then mean (List.map_filter wait_time (patient_outcomes st)) else 0)
       \<and> median_wait_time_minutes (res_metrics res) =
           (if List.map_filter wait_time (patient_outcomes st) \<noteq> []
            then median (List.map_filter wait_time (patient_outcomes st)) else 0)
       \<and> max_wait_time_minutes (res_metrics res) =
           (if List.map_filter wait_time (patient_outcomes st) \<noteq> []
            then py_max (List.map_filter wait_time (patient_outcomes st)) else 0)
       \<and> avg_los_minutes (res_metrics res) =
           (if List.map_filter los (patient_outcomes st) \<noteq> []
            then mean (List.map_filter los (patient_outcomes st)) else 0)
       \<and> sla_breaches (res_metrics res) =
           length (filter (\<lambda>w. w > 60) (List.map_filter wait_time (patient_outcomes st)))
       \<and> (\<forall>oc \<in> set (patient_outcomes st).
            \<exists>p t. map_of (patients st) (o_patient_id oc) = Some p \<and> bed_assigned_time p \<noteq> None
                 \<and> discharge_time p = Some t \<and> t < end_time)
       \<and> (\<forall>k p. map_of (patients st) k = Some p \<and> (bed_assigned_time p = None \<or> discharge_time p = None)
            \<longrightarrow> (\<forall>oc \<in> set (patient_outcomes st). o_patient_id oc \<noteq> k))"
proof -
  from assms obtain st1 ls where ga: "generate_arrivals G (SimulationEngine_init G ps seed) = Some (Inr st1)"
    and ml: "main_loop G cb (loop_start st1 w) = Some (Inr ls)"
    and res: "res = calculate_results (engine ls)" and st: "st = engine ls"
    by (rule run_cases)
  have i0: "outcomes_inv (engine (loop_start st1 w))"
    using outcomes_inv_generate_arrivals[OF ga] by (simp add: loop_start_def)
  have r: "run_reaches G cb (loop_start st1 w) ls" using main_loop_reaches[OF ml] by simp
  have "outcomes_inv (engine ls)"
    using r i0 by (rule run_reaches_invariant[where I = "\<lambda>l. outcomes_inv (engine l)"])
                  (rule outcomes_inv_loop_body)
  then have inv: "outcomes_inv st" by (simp add: st)
  have d: "\<forall>oc \<in> set (patient_outcomes st).
            \<exists>p t. map_of (patients st) (o_patient_id oc) = Some p \<and> bed_assigned_time p \<noteq> None
                 \<and> discharge_time p = Some t \<and> t < end_time"
    using inv by (auto simp: outcomes_inv_def outcome_ok_def settled_def)
  have c: "\<forall>k p. map_of (patients st) k = Some p \<and> (bed_assigned_time p = None \<or> discharge_time p = None)
            \<longrightarrow> (\<forall>oc \<in> set (patient_outcomes st). o_patient_id oc \<noteq> k)"
  proof (intro allI impI ballI notI)
    fix k p oc
    assume kp: "map_of (patients st) k = Some p \<and> (bed_assigned_time p = None \<or> discharge_time p = None)"
      and oc: "oc \<in> set (patient_outcomes st)" and eq: "o_patient_id oc = k"
    from d oc obtain p' t where "map_of (patients st) (o_patient_id oc) = Some p'"
      "bed_assigned_time p' \<noteq> None" "discharge_time p' = Some t"
      by blast
    then show False using kp eq by auto
  qed
  have m: "total_patients (res_metrics res) = length (patient_outcomes st)
       \<and> avg_wait_time_minutes (res_metrics res) =
           (if List.map_filter wait_time (patient_outcomes st) \<noteq> []
            then mean (List.map_filter wait_time (patient_outcomes st)) else 0)
       \<and> median_wait_time_minutes (res_metrics res) =
           (if List.map_filter wait_time (patient_outcomes st) \<noteq> []
            then median (List.map_filter wait_time (patient_outcomes st)) else 0)
       \<and> max_wait_time_minutes (res_metrics res) =
           (if List.map_filter wait_time (patient_outcomes st) \<noteq> []
            then py_max (List.map_filter wait_time (patient_outcomes st)) else 0)
       \<and> avg_los_minutes (res_metrics res) =
           (if List.map_filter los (patient_outcomes st) \<noteq> []
            then mean (List.map_filter los (patient_outcomes st)) else 0)
       \<and> sla_breaches (res_metrics res) =
           length (filter (\<lambda>w. w > 60) (List.map_filter wait_time (patient_outcomes st)))"
    unfolding res st by (rule outcome_metrics)
  show ?thesis using m d c by blast
qed

text \<open>
  The run driven by \<open>horizon_generator\<close>: four patients arrive at minutes 10, 20, 30 and 1400 on a
  two-bed unit.  The first three are discharged before the horizon and are the only ones with an
  outcome row; the fourth gets a bed at minute 1405 and is still in it at 24 h, so it is absent
  from the outcome list and from \<open>total_patients\<close>.
\<close>

theorem outcomes_only_for_discharged_witness:
  "(case run horizon_generator None () (SimulationEngine_init horizon_generator sample_parameters 42) of
      Some (Inr (res, st, w)) \<Rightarrow>
        map fst (patients st) = [1, 2, 3, 4]
        \<and> map_option discharge_time (map_of (patients st) 4) = Some None
        \<and> map o_patient_id (patient_outcomes st) = [1, 2, 3]
        \<and> total_patients (res_metrics res) = length (patient_outcomes st)
        \<and> total_patients (res_metrics res) = 3
        \<and> sla_breaches (res_metrics res) = 1
    | _ \<Rightarrow> False)"
proof -
  let ?r = "run horizon_generator None () (SimulationEngine_init horizon_generator sample_parameters 42)"
  have c: "(case ?r of
      Some (Inr (res, st, w)) \<Rightarrow>
        map fst (patients st) = [1, 2, 3, 4]
        \<and> map_option discharge_time (map_of (patients st) 4) = Some None
        \<and> map o_patient_id (patient_outcomes st) = [1, 2, 3]
        \<and> sla_breaches (res_metrics res) = 1
    | _ \<Rightarrow> False)"
    by code_simp
  then obtain res st w' where r: "?r = Some (Inr (res, st, w'))"
    by (auto split: option.splits sum.splits)
  have c': "map fst (patients st) = [1, 2, 3, 4]
        \<and> map_option discharge_time (map_of (patients st) 4) = Some None
        \<and> map o_patient_id (patient_outcomes st) = [1, 2, 3]
        \<and> sla_breaches (res_metrics res) = 1"
    using c unfolding r by (simp only: option.case sum.case prod.case)
  have t: "total_patients (res_metrics res) = length (patient_outcomes st)"
    using outcomes_only_for_discharged[OF r] by blast
  have "length (map o_patient_id (patient_outcomes st)) = 3" using c' by simp
  then have "total_patients (res_metrics res) = 3" using t by simp
  then have g: "map fst (patients st) = [1, 2, 3, 4]
        \<and> map_option discharge_time (map_of (patients st) 4) = Some None
        \<and> map o_patient_id (patient_outcomes st) = [1, 2, 3]
        \<and> total_patients (res_metrics res) = length (patient_outcomes st)
        \<and> total_patients (res_metrics res) = 3
        \<and> sla_breaches (res_metrics res) = 1"
    using c' t by blast
  show ?thesis unfolding r option.case sum.case prod.case by (rule g)
qed
section \<open>Properties of the job runner\<close>

text \<open>
  Claim C2 on the code. The engine processes events scheduled past minute 1440 and
  reports \<open>int(current_time / end_time * 100)\<close> without a bound, so the callback writes
  values above 100; the task then writes 100. With one patient arriving at minute 1435
  and needing imaging, the progress values committed to the run row are
  0, 99, 100, 101, 102 and then 100 with status \<open>completed\<close>: not a non-decreasing sequence.
\<close>

theorem progress_passes_100_then_drops:
  "progress_written (run_simulation_task late_arrival_generator 0 1 1 1 pending_session)
     = Some [0, 99, 100, 101, 102, 100]
   \<and> status_written (run_simulation_task late_arrival_generator 0 1 1 1 pending_session)
     = Some [RUNNING, RUNNING, RUNNING, RUNNING, RUNNING, COMPLETED]
   \<and> \<not> sorted [0, 99, 100, 101, 102, 100 :: int]"
  by code_simp

text \<open>
  Claim C4, as the code has it. When the run row or the scenario row does not exist, the
  task returns the error result \<open>{"error": "Run or scenario not found"}\<close> and leaves the
  session as it was: nothing is written or committed, and a run row that exists is not
  changed.
\<close>

theorem missing_rows_short_circuit:
  assumes "map_of (runs db) rid = None \<or> map_of (scenarios db) sid = None"
  shows "run_simulation_task G t_started t_completed rid sid db = Some (Error_not_found, db)"
  using assms by (auto simp: run_simulation_task_def split: option.splits)

text \<open>The statement at the pending run 1 dispatched with a scenario 7 that does not exist.\<close>

theorem missing_rows_short_circuit_witness:
  "(map_of (runs pending_session) 1 = None \<or> map_of (scenarios pending_session) 7 = None)
   \<and> run_simulation_task late_arrival_generator 0 1 1 7 pending_session = Some (Error_not_found, pending_session)"
proof -
  have h: "map_of (runs pending_session) 1 = None \<or> map_of (scenarios pending_session) 7 = None"
    by (simp add: pending_session_def)
  from missing_rows_short_circuit[OF h] h show ?thesis by blast
qed

text \<open>
  Claim C4 as stated fails: dispatched with the existing run 1 and the missing scenario
  7, the task leaves the run row \<open>pending\<close> and commits nothing; the row is not set to
  \<open>failed\<close>.
\<close>

theorem missing_scenario_run_stays_pending_counterexample:
  "map_of (scenarios pending_session) 7 = None
   \<and> row_status 1 (run_simulation_task late_arrival_generator 0 1 1 7 pending_session) = Some PENDING
   \<and> status_written (run_simulation_task late_arrival_generator 0 1 1 7 pending_session) = Some []"
  by (simp add: run_simulation_task_def pending_session_def pending_run_def row_status_def status_written_def)


end
